theory Spec2Isabelle
  imports Main "HOL-Library.Word" "HOL-Library.Multiset"
begin

section \<open>RedShot: the locator table, the state classifier, the poll loop and search\<close>

text \<open>
  A shallow embedding of \<^verbatim>\<open>redshot/constants/locator.py\<close> and of the parts of
  \<^verbatim>\<open>redshot/client.py\<close> that classify the page, run the poll loop, stop the client
  and order and walk the search results. The browser driver (selenium) is outside the
  repository: every call into it is an observation, a value the model takes as input,
  with the exception it may raise as the left summand.
\<close>

subsection \<open>Exceptions\<close>

text \<open>
  The two selenium exceptions the poll loop names in its \<^verbatim>\<open>except\<close> clause, the
  selenium base class for every other driver failure, and the Python built-ins raised
  by an attribute read on \<^verbatim>\<open>None\<close>, an index out of range and a failed \<^verbatim>\<open>int()\<close>.
\<close>

datatype exn =
    StaleElementReferenceException
  | NoSuchElementException
  | WebDriverException
  | AttributeError
  | IndexError
  | ValueError

subsection \<open>Strings\<close>

text \<open>
  \<^verbatim>\<open>str.upper\<close>, on the ASCII letters; every other character is left as it is (the
  attribute names of the class are ASCII).
\<close>

definition upper_char :: "char \<Rightarrow> char" where
  "upper_char c =
     (case map_of (zip ''abcdefghijklmnopqrstuvwxyz'' ''ABCDEFGHIJKLMNOPQRSTUVWXYZ'') c of
        Some u \<Rightarrow> u
      | None \<Rightarrow> c)"

definition upper :: "string \<Rightarrow> string" where
  "upper s = map upper_char s"

subsection \<open>The locator table (constants/locator.py)\<close>

text \<open>
  A locator is the pair \<^verbatim>\<open>(By.XPATH, "...")\<close>. The class \<^verbatim>\<open>Locator\<close> is used as a
  table of class attributes read and written by name (\<^verbatim>\<open>hasattr\<close>, \<^verbatim>\<open>setattr\<close>,
  \<^verbatim>\<open>getattr\<close>), so it is a map from attribute names to locators. The names reached
  through \<^verbatim>\<open>locator_name.upper()\<close> have no lower-case letter; the methods and the
  dunder attributes of the class all have one, so the map holds the locator constants
  only.
\<close>

type_synonym locator = "string \<times> string"

type_synonym locator_table = "string \<rightharpoonup> locator"

definition XPATH :: string where
  "XPATH = ''xpath''"

definition Locator_attrs :: "(string \<times> locator) list" where
  "Locator_attrs =
    [(''AUTH'', (XPATH, ''//div[contains(text(), 'Use WhatsApp on your computer')]'')),
     (''QR_CODE'', (XPATH, ''//canvas[@aria-label='Scan this QR code to link a device!']'')),
     (''LOADING'', (XPATH, ''//div[//span[@data-icon='lock'] and contains(text(), 'End-to-end encrypted') and //progress]'')),
     (''LOADING_CHATS'', (XPATH, ''//div[text()='Loading your chats']'')),
     (''LOGGED_IN'', (XPATH, ''//div[@title='Chats']'')),
     (''CHATS_BUTTON'', (XPATH, ''//div[@aria-label='Chats']'')),
     (''STATUS_BUTTON'', (XPATH, ''//div[@aria-label='Status']'')),
     (''CHANNELS_BUTTON'', (XPATH, ''//div[@aria-label='Channels']'')),
     (''COMMUNITIES_BUTTON'', (XPATH, ''//div[@aria-label='Communities']'')),
     (''ALL_CHATS_BUTTON'', (XPATH, ''//div[text()='All']'')),
     (''UNREAD_CHATS_BUTTON'', (XPATH, ''//div[text()='Unread']'')),
     (''FAVOURITES_CHATS_BUTTON'', (XPATH, ''//div[text()='Favourites']'')),
     (''GROUPS_CHATS_BUTTON'', (XPATH, ''//div[text()='Groups']'')),
     (''SEARCH_BUTTON_INACTIVE'', (XPATH, ''//button[@aria-label='Search or start new chat']'')),
     (''SEARCH_BUTTON_ACTIVE'', (XPATH, ''//button[@aria-label='Chat list']'')),
     (''CANCEL_SEARCH_BUTTON'', (XPATH, ''//button[@aria-label='Cancel search']'')),
     (''CHAT_INPUT_BOX'', (XPATH, ''//div[@aria-placeholder='Type a message']'')),
     (''SEARCH_RESULT'', (XPATH, ''//div[@aria-label='Search results.']'')),
     (''SEARCH_ITEM'', (XPATH, ''//div[@role='listitem']'')),
     (''SEARCH_ITEM_COMPONENTS'', (XPATH, ''.//div[@role='gridcell' and @aria-colindex='2']/parent::div/div'')),
     (''SEARCH_ITEM_UNREAD_MESSAGES'', (XPATH, ''.//span[contains(@aria-label, 'unread message')]'')),
     (''SPAN_TITLE'', (XPATH, ''.//span[@title]'')),
     (''CHAT_DIV'', (XPATH, ''//div[@role='application']'')),
     (''UNREAD_CHAT_DIV'', (XPATH, ''//div[@aria-label='Chat list']'')),
     (''CHAT_COMPONENT'', (XPATH, ''.//div[@role='row']'')),
     (''CHAT_MESSAGE_DATA_ID'', (XPATH, ''.//div[@data-id]'')),
     (''CHAT_MESSAGE'', (XPATH, ''.//div[@data-pre-plain-text]'')),
     (''CHAT_MESSAGE_QUOTE'', (XPATH, ''.//div[@aria-label='Quoted message']'')),
     (''CHAT_MESSAGE_IMAGE'', (XPATH, ''.//div[@aria-label='Open picture']'')),
     (''CHAT_MESSAGE_IMAGE_ELEMENT'', (XPATH, ''.//img[starts-with(@src, 'blob:https://web.whatsapp.com')]''))]"

definition Locator :: locator_table where
  "Locator = map_of Locator_attrs"

text \<open>
  \<^verbatim>\<open>set_locator\<close> returns the flag and the table after the call: \<^verbatim>\<open>setattr\<close> runs
  only when \<^verbatim>\<open>hasattr\<close> finds the upper-cased name.
\<close>

definition set_locator :: "string \<Rightarrow> locator \<Rightarrow> locator_table \<Rightarrow> bool \<times> locator_table" where
  "set_locator locator_name loc cls =
     (let name = upper locator_name
      in if name \<in> dom cls then (True, cls(name \<mapsto> loc)) else (False, cls))"

text \<open>\<^verbatim>\<open>getattr(cls, locator_name.upper(), None)\<close>.\<close>

definition get_locator :: "string \<Rightarrow> locator_table \<Rightarrow> locator option" where
  "get_locator locator_name cls = cls (upper locator_name)"

subsection \<open>Screen states and the state classifier (Client._get_state)\<close>

text \<open>
  The enumeration \<^verbatim>\<open>redshot.constants.State\<close>, with the four members the client
  uses. The classifier's ``no state'' is Python's \<^verbatim>\<open>None\<close>, so its result is a
  \<open>State option\<close>.
\<close>

datatype State = AUTH | QR_AUTH | LOADING | LOGGED_IN

text \<open>
  An element handle: its tag, its rendered text, its \<^verbatim>\<open>title\<close> attribute, the value
  of its CSS property \<^verbatim>\<open>transform\<close> and its child elements in document order.
\<close>

datatype element =
  Element (tag: string) (elem_text: string) (title_attr: "string option") (transform: string)
    (children: "element list")

type_synonym bytes = "8 word list"

text \<open>
  A search result as the spec describes it: the category of the nearest preceding
  header (\<^verbatim>\<open>None\<close> before the first header), the title and an optional unread count.
\<close>

record SearchResult =
  category :: "string option"
  title :: string
  unreadCount :: "nat option"

text \<open>
  What the page answers during one iteration of the poll loop. Each field is one call
  of the source: \<^verbatim>\<open>utils.is_present(driver, loc)\<close>, \<^verbatim>\<open>driver.find_element(*loc)\<close>,
  \<^verbatim>\<open>driver.find_elements(*loc)\<close>, \<^verbatim>\<open>element.find_elements(*loc)\<close>,
  \<^verbatim>\<open>element.click()\<close>, \<^verbatim>\<open>utils.extract_image_from_canvas(driver, element)\<close> and
  \<^verbatim>\<open>utils.parse_search_result(element, category)\<close>. An iteration asks each question
  at most once, so a function of the question holds all its answers. The last field
  says whether another task calls \<^verbatim>\<open>stop()\<close> while the iteration is suspended in
  \<^verbatim>\<open>asyncio.sleep\<close>.
\<close>

record page =
  is_present :: "locator \<Rightarrow> exn + bool"
  find_element :: "locator \<Rightarrow> exn + element"
  find_elements :: "locator \<Rightarrow> exn + element list"
  elem_find_elements :: "element \<Rightarrow> locator \<Rightarrow> exn + element list"
  click :: "element \<Rightarrow> exn + unit"
  extract_image_from_canvas :: "element \<Rightarrow> exn + bytes"
  parse_search_result :: "element \<Rightarrow> string option \<Rightarrow> SearchResult option"
  stop_in_sleep :: bool

text \<open>Sequencing of calls that may raise: the first exception ends the sequence.\<close>

definition then_exn :: "exn + 'a \<Rightarrow> ('a \<Rightarrow> exn + 'b) \<Rightarrow> exn + 'b" where
  "then_exn m f = (case m of Inl e \<Rightarrow> Inl e | Inr x \<Rightarrow> f x)"

text \<open>Reading the class attribute \<^verbatim>\<open>Locator.NAME\<close>.\<close>

definition attr :: "locator_table \<Rightarrow> string \<Rightarrow> exn + locator" where
  "attr cls name = (case cls name of None \<Rightarrow> Inl AttributeError | Some loc \<Rightarrow> Inr loc)"

text \<open>\<^verbatim>\<open>utils.is_present(self._driver, Locator.NAME)\<close>.\<close>

definition present :: "locator_table \<Rightarrow> page \<Rightarrow> string \<Rightarrow> exn + bool" where
  "present cls p name = then_exn (attr cls name) (is_present p)"

definition get_state :: "locator_table \<Rightarrow> page \<Rightarrow> exn + State option" where
  "get_state cls p =
     then_exn (present cls p ''LOGGED_IN'') (\<lambda>logged_in.
       if logged_in then Inr (Some LOGGED_IN)
       else then_exn (present cls p ''LOADING'') (\<lambda>loading.
         if loading then Inr (Some LOADING)
         else then_exn (present cls p ''QR_CODE'') (\<lambda>qr_code.
           if qr_code then Inr (Some QR_AUTH)
           else then_exn (present cls p ''AUTH'') (\<lambda>auth.
             if auth then Inr (Some AUTH)
             else Inr None))))"

subsection \<open>The client and its events\<close>

text \<open>
  The driver object: the address it was sent to and how many times its \<^verbatim>\<open>quit()\<close>
  was called. Selenium's \<^verbatim>\<open>Chrome.quit()\<close> catches the failure of its own command, so
  \<^verbatim>\<open>quit\<close> returns on every call.
\<close>

record Chrome =
  url :: string
  quit_calls :: nat

definition init_driver :: Chrome where
  "init_driver = \<lparr>url = [], quit_calls = 0\<rparr>"

definition get :: "string \<Rightarrow> Chrome \<Rightarrow> Chrome" where
  "get address d = d\<lparr>url := address\<rparr>"

definition quit :: "Chrome \<Rightarrow> Chrome" where
  "quit d = d\<lparr>quit_calls := Suc (quit_calls d)\<rparr>"

text \<open>The calls of \<^verbatim>\<open>trigger_event\<close>, with their arguments.\<close>

datatype event =
    on_start
  | on_auth
  | on_qr bytes
  | on_qr_change bytes
  | on_loading bool
  | on_logged_in
  | on_unread_chat SearchResult
  | on_tick

text \<open>
  The attributes \<^verbatim>\<open>running\<close>, \<^verbatim>\<open>quited\<close> and \<^verbatim>\<open>_driver\<close> of the client, the
  variables \<^verbatim>\<open>qr_binary\<close> and \<^verbatim>\<open>state\<close> of \<^verbatim>\<open>main_loop\<close>, and the events triggered
  so far, oldest first. The constructor's other attributes (\<^verbatim>\<open>auth\<close>, \<^verbatim>\<open>poll_freq\<close>,
  \<^verbatim>\<open>headless\<close>, \<^verbatim>\<open>unread_messages_sleep\<close>) only reach the driver's options and the
  lengths of the sleeps.
\<close>

record client =
  running :: bool
  quited :: bool
  driver :: "Chrome option"
  qr_binary :: "bytes option"
  state :: "State option"
  events :: "event list"

definition Client_init :: client where
  "Client_init =
     \<lparr>running = False, quited = False, driver = None, qr_binary = None, state = None,
      events = []\<rparr>"

definition trigger_event :: "event \<Rightarrow> client \<Rightarrow> client" where
  "trigger_event ev c = c\<lparr>events := events c @ [ev]\<rparr>"

text \<open>
  \<^verbatim>\<open>stop\<close>: the two flags are written first, then \<^verbatim>\<open>self._driver.quit()\<close> runs,
  which is an attribute read on \<^verbatim>\<open>None\<close> when no driver was created. The result is
  the exception raised, if any, and the client after the call.
\<close>

definition stop :: "client \<Rightarrow> exn option \<times> client" where
  "stop c =
     (let c1 = c\<lparr>running := False, quited := True\<rparr>
      in case driver c1 of
           None \<Rightarrow> (Some AttributeError, c1)
         | Some d \<Rightarrow> (None, c1\<lparr>driver := Some (quit d)\<rparr>))"

text \<open>\<^verbatim>\<open>await asyncio.sleep(self.poll_freq)\<close>: other tasks run, and one of them may stop the client.\<close>

definition sleep :: "page \<Rightarrow> client \<Rightarrow> client" where
  "sleep p c = (if stop_in_sleep p then snd (stop c) else c)"

subsection \<open>One iteration of the poll loop (the body of the while of Client.main_loop)\<close>

text \<open>
  \<^verbatim>\<open>find_element(*Locator.QR_CODE)\<close> followed by \<^verbatim>\<open>extract_image_from_canvas\<close>.
\<close>

definition extract_qr :: "locator_table \<Rightarrow> page \<Rightarrow> exn + bytes" where
  "extract_qr cls p =
     then_exn (attr cls ''QR_CODE'') (\<lambda>loc.
     then_exn (find_element p loc) (\<lambda>qr_code_canvas.
       extract_image_from_canvas p qr_code_canvas))"

text \<open>The unread-chat scan of a steady LOGGED_IN iteration, up to the list \<^verbatim>\<open>unread_chats\<close>.\<close>

definition unread_scan :: "locator_table \<Rightarrow> page \<Rightarrow> exn + SearchResult list" where
  "unread_scan cls p =
     then_exn (attr cls ''UNREAD_CHATS_BUTTON'') (\<lambda>unread_loc.
     then_exn (find_element p unread_loc) (\<lambda>unread_button.
     then_exn (click p unread_button) (\<lambda>_.
     then_exn (attr cls ''UNREAD_CHAT_DIV'') (\<lambda>div_loc.
     then_exn (find_elements p div_loc) (\<lambda>chat_list.
     then_exn
       (case chat_list of
          [] \<Rightarrow> Inr []
        | chat_div # _ \<Rightarrow>
            then_exn (attr cls ''SEARCH_ITEM'') (\<lambda>item_loc.
            then_exn (elem_find_elements p chat_div item_loc) (\<lambda>chats.
              Inr (List.map_filter (\<lambda>chat. parse_search_result p chat (Some ''CHATS'')) chats))))
       (\<lambda>unread_chats.
     then_exn (attr cls ''ALL_CHATS_BUTTON'') (\<lambda>all_loc.
     then_exn (find_element p all_loc) (\<lambda>all_button.
     then_exn (click p all_button) (\<lambda>_.
       Inr unread_chats)))))))))"

text \<open>The end of an iteration that was not cut short: \<^verbatim>\<open>on_tick\<close>, then the sleep.\<close>

definition end_of_iteration :: "page \<Rightarrow> client \<Rightarrow> exn option \<times> client" where
  "end_of_iteration p c = (None, sleep p (trigger_event on_tick c))"

text \<open>The \<^verbatim>\<open>match\<close> of a transition; an exception leaves before any assignment.\<close>

definition transition :: "locator_table \<Rightarrow> page \<Rightarrow> State \<Rightarrow> client \<Rightarrow> exn + client" where
  "transition cls p curr_state c =
     (case curr_state of
        AUTH \<Rightarrow> Inr (trigger_event on_auth c)
      | QR_AUTH \<Rightarrow>
          then_exn (extract_qr cls p) (\<lambda>qr.
            Inr (trigger_event (on_qr qr) (c\<lparr>qr_binary := Some qr\<rparr>)))
      | LOADING \<Rightarrow>
          then_exn (present cls p ''LOADING_CHATS'') (\<lambda>loading_chats.
            Inr (trigger_event (on_loading loading_chats) c))
      | LOGGED_IN \<Rightarrow> Inr (trigger_event on_logged_in c))"

text \<open>
  The steady-state branch: the QR check inside its \<^verbatim>\<open>try\<close>, whose \<^verbatim>\<open>except\<close> names
  two exceptions, and the unread-chat scan with one \<^verbatim>\<open>on_unread_chat\<close> per chat.
\<close>

definition steady :: "locator_table \<Rightarrow> page \<Rightarrow> State \<Rightarrow> client \<Rightarrow> exn + client" where
  "steady cls p curr_state c =
     (if curr_state = QR_AUTH then
        (case extract_qr cls p of
           Inr curr_qr_binary \<Rightarrow>
             if Some curr_qr_binary \<noteq> qr_binary c
             then Inr (trigger_event (on_qr_change curr_qr_binary)
                         (c\<lparr>qr_binary := Some curr_qr_binary\<rparr>))
             else Inr c
         | Inl e \<Rightarrow>
             if e = StaleElementReferenceException \<or> e = NoSuchElementException
             then Inr c
             else Inl e)
      else if curr_state = LOGGED_IN then
        then_exn (unread_scan cls p) (\<lambda>unread_chats.
          Inr (fold (\<lambda>chat. trigger_event (on_unread_chat chat)) unread_chats c))
      else Inr c)"

definition tick :: "locator_table \<Rightarrow> page \<Rightarrow> client \<Rightarrow> exn option \<times> client" where
  "tick cls p c =
     (case get_state cls p of
        Inl e \<Rightarrow> (Some e, c)
      | Inr None \<Rightarrow> (None, sleep p c)
      | Inr (Some curr_state) \<Rightarrow>
          if Some curr_state \<noteq> state c then
            (case transition cls p curr_state c of
               Inl e \<Rightarrow> (Some e, c)
             | Inr c1 \<Rightarrow> end_of_iteration p (c1\<lparr>state := Some curr_state\<rparr>))
          else
            (case steady cls p curr_state c of
               Inl e \<Rightarrow> (Some e, c)
             | Inr c1 \<Rightarrow> end_of_iteration p c1))"

subsection \<open>The poll loop (Client.main_loop, Client.run)\<close>

text \<open>
  The while loop, run on the pages of its successive iterations: it ends when
  \<^verbatim>\<open>running\<close> is false at the top of an iteration, when an iteration raises, or
  when the given pages are used up (the result is then the client at that point).
\<close>

fun while_running :: "locator_table \<Rightarrow> page list \<Rightarrow> client \<Rightarrow> exn option \<times> client" where
  "while_running cls [] c = (None, c)"
| "while_running cls (p # ps) c =
     (if running c then
        (case tick cls p c of
           (Some e, c1) \<Rightarrow> (Some e, c1)
         | (None, c1) \<Rightarrow> while_running cls ps c1)
      else (None, c))"

definition main_loop :: "locator_table \<Rightarrow> page list \<Rightarrow> client \<Rightarrow> exn option \<times> client" where
  "main_loop cls ps c =
     (let c1 = c\<lparr>driver := Some (get ''https://web.whatsapp.com'' init_driver)\<rparr>;
          c2 = c1\<lparr>qr_binary := None, state := None\<rparr>;
          c3 = trigger_event on_start c2
      in while_running cls ps c3)"

definition run :: "locator_table \<Rightarrow> page list \<Rightarrow> client \<Rightarrow> exn option \<times> client" where
  "run cls ps c = main_loop cls ps (c\<lparr>running := True\<rparr>)"

subsection \<open>Ordering the search items (Client.search_sort_key, sorted)\<close>

text \<open>
  \<^verbatim>\<open>re.findall(r"\d+", s)\<close>: the maximal runs of decimal digits of \<open>s\<close>, left to
  right. The first argument of \<open>digit_runs\<close> is the run being read.
\<close>

definition is_digit :: "char \<Rightarrow> bool" where
  "is_digit c = (c \<in> set ''0123456789'')"

fun digit_runs :: "string \<Rightarrow> string \<Rightarrow> string list" where
  "digit_runs tok [] = (if tok = [] then [] else [tok])"
| "digit_runs tok (c # cs) =
     (if is_digit c then digit_runs (tok @ [c]) cs
      else (if tok = [] then [] else [tok]) @ digit_runs [] cs)"

definition findall_digits :: "string \<Rightarrow> string list" where
  "findall_digits s = digit_runs [] s"

text \<open>\<^verbatim>\<open>int(token)\<close> on a run of decimal digits.\<close>

definition digit_value :: "char \<Rightarrow> int" where
  "digit_value c = int (of_char c) - 48"

definition int_of_digits :: "string \<Rightarrow> int" where
  "int_of_digits token = foldl (\<lambda>n c. 10 * n + digit_value c) 0 token"

text \<open>
  \<^verbatim>\<open>int(re.findall(r"\d+", i.value_of_css_property("transform"))[-1])\<close>: the index
  \<^verbatim>\<open>[-1]\<close> raises on the empty list.
\<close>

definition search_sort_key :: "element \<Rightarrow> exn + int" where
  "search_sort_key i =
     (case findall_digits (transform i) of
        [] \<Rightarrow> Inl IndexError
      | tokens \<Rightarrow> Inr (int_of_digits (last tokens)))"

text \<open>
  \<^verbatim>\<open>sorted(items, key=key)\<close>: the key of every item is computed first, in order, and
  the first exception leaves; then the items are sorted on their keys by a stable sort.
\<close>

fun keys_of :: "('a \<Rightarrow> exn + int) \<Rightarrow> 'a list \<Rightarrow> exn + int list" where
  "keys_of key [] = Inr []"
| "keys_of key (x # xs) =
     then_exn (key x) (\<lambda>k. then_exn (keys_of key xs) (\<lambda>ks. Inr (k # ks)))"

definition sorted_py :: "('a \<Rightarrow> exn + int) \<Rightarrow> 'a list \<Rightarrow> exn + 'a list" where
  "sorted_py key xs =
     then_exn (keys_of key xs) (\<lambda>ks. Inr (map snd (sort_key fst (zip ks xs))))"

subsection \<open>Walking the sorted search items (the for loop of Client.search)\<close>

text \<open>\<^verbatim>\<open>result.find_elements(By.XPATH, "./div")\<close>: the child elements that are divs.\<close>

definition child_divs :: "element \<Rightarrow> element list" where
  "child_divs result = filter (\<lambda>child. tag child = ''div'') (children result)"

text \<open>
  The test of the loop: one child div, and \<^verbatim>\<open>"./*"\<close> finds nothing under it.
\<close>

definition is_header :: "element \<Rightarrow> bool" where
  "is_header result =
     (length (child_divs result) = 1 \<and> length (children (hd (child_divs result))) = 0)"

text \<open>
  The loop, with \<^verbatim>\<open>curr_type\<close> and \<^verbatim>\<open>results\<close> as arguments;
  \<^verbatim>\<open>utils.parse_search_result\<close> is the first argument.
\<close>

fun search_loop ::
  "(element \<Rightarrow> string option \<Rightarrow> SearchResult option) \<Rightarrow> element list \<Rightarrow> string option \<Rightarrow>
     SearchResult list \<Rightarrow> SearchResult list" where
  "search_loop parse [] curr_type results = results"
| "search_loop parse (result # rest) curr_type results =
     (if is_header result
      then search_loop parse rest (Some (elem_text (hd (child_divs result)))) results
      else (case parse result curr_type of
              None \<Rightarrow> search_loop parse rest curr_type results
            | Some search_result \<Rightarrow> search_loop parse rest curr_type (results @ [search_result])))"

text \<open>
  \<^verbatim>\<open>Client.search\<close> from the list \<^verbatim>\<open>result_items\<close> on: sort, then walk with
  \<^verbatim>\<open>curr_type = None\<close> and \<^verbatim>\<open>results = []\<close>.
\<close>

definition search_results ::
  "(element \<Rightarrow> string option \<Rightarrow> SearchResult option) \<Rightarrow> element list \<Rightarrow> exn + SearchResult list" where
  "search_results parse result_items =
     then_exn (sorted_py search_sort_key result_items) (\<lambda>sorted_result_items.
       Inr (search_loop parse sorted_result_items None []))"

subsection \<open>The spec's description of search-result extraction\<close>

text \<open>
  The spec's words for a section header: a fragment with a single child that has no
  further nested content. Every child counts here, whatever its tag.
\<close>

definition is_header_spec :: "element \<Rightarrow> bool" where
  "is_header_spec fragment =
     (case children fragment of
        [child] \<Rightarrow> children child = []
      | _ \<Rightarrow> False)"

text \<open>The text that becomes the current category: the text of that single child.\<close>

definition header_text_spec :: "element \<Rightarrow> string" where
  "header_text_spec fragment =
     (case children fragment of
        [child] \<Rightarrow> elem_text child
      | _ \<Rightarrow> [])"

text \<open>
  The spec's words for the walk: a header fragment makes its text the current category
  and produces no result; an item fragment is paired with the current category.
\<close>

fun tag_with_category :: "string option \<Rightarrow> element list \<Rightarrow> (element \<times> string option) list" where
  "tag_with_category current [] = []"
| "tag_with_category current (fragment # fragments) =
     (if is_header_spec fragment
      then tag_with_category (Some (header_text_spec fragment)) fragments
      else (fragment, current) # tag_with_category current fragments)"

text \<open>A fragment all of whose children are div elements.\<close>

definition div_children :: "element \<Rightarrow> bool" where
  "div_children fragment = list_all (\<lambda>child. tag child = ''div'') (children fragment)"

text \<open>
  Modelled from the spec: \<^verbatim>\<open>utils.parse_search_result\<close> is not among the sources. The
  spec says an item fragment produces a SearchResult tagged with the current category,
  and a fragment of neither shape is not applicable. The title is read from the first
  span with a \<^verbatim>\<open>title\<close> attribute below the fragment (the table's \<^verbatim>\<open>SPAN_TITLE\<close>,
  \<^verbatim>\<open>.//span[@title]\<close>); a fragment without one is not applicable.
\<close>

fun span_titles :: "element \<Rightarrow> string list" where
  "span_titles (Element tg tx ti tr cs) =
     concat (map (\<lambda>child.
       (if tag child = ''span'' then (case title_attr child of None \<Rightarrow> [] | Some t \<Rightarrow> [t]) else [])
         @ span_titles child) cs)"

definition parse_search_result_model :: "element \<Rightarrow> string option \<Rightarrow> SearchResult option" where
  "parse_search_result_model fragment current =
     (case span_titles fragment of
        [] \<Rightarrow> None
      | t # _ \<Rightarrow> Some \<lparr>category = current, title = t, unreadCount = None\<rparr>)"

text \<open>The synthetic fragments of the spec's example, at a given transform.\<close>

definition header :: "string \<Rightarrow> string \<Rightarrow> element" where
  "header name tr = Element ''div'' name None tr [Element ''div'' name None [] []]"

definition item :: "string \<Rightarrow> string \<Rightarrow> element" where
  "item name tr =
     Element ''div'' name None tr
       [Element ''div'' [] None [] [Element ''img'' [] None [] []],
        Element ''div'' name None [] [Element ''span'' name (Some name) [] []]]"

subsection \<open>Reading the event log\<close>

text \<open>The state a state-entry event announces; no state for the other events.\<close>

fun entry_state :: "event \<Rightarrow> State option" where
  "entry_state on_auth = Some AUTH"
| "entry_state (on_qr qr) = Some QR_AUTH"
| "entry_state (on_loading loading_chats) = Some LOADING"
| "entry_state on_logged_in = Some LOGGED_IN"
| "entry_state on_start = None"
| "entry_state (on_qr_change qr) = None"
| "entry_state (on_unread_chat chat) = None"
| "entry_state on_tick = None"

definition state_entries :: "event list \<Rightarrow> State list" where
  "state_entries evs = List.map_filter entry_state evs"

text \<open>
  The spec's ``immediately preceding non-Indeterminate state'' of a sequence of
  classifier outputs, from the state held before the sequence.
\<close>

fun previous_state :: "State option \<Rightarrow> State option list \<Rightarrow> State option" where
  "previous_state prev [] = prev"
| "previous_state prev (None # outputs) = previous_state prev outputs"
| "previous_state prev (Some s # outputs) = previous_state (Some s) outputs"

subsection \<open>Pages for concrete runs\<close>

text \<open>
  A page on which exactly the locators of the given names of \<open>Locator\<close> are present,
  whose QR canvas, when found, exports the given bytes, and on which no other call
  fails or finds anything.
\<close>

definition canvas :: element where
  "canvas = Element ''canvas'' [] None [] []"

definition showing :: "string list \<Rightarrow> bytes \<Rightarrow> page" where
  "showing names qr =
     \<lparr>is_present = (\<lambda>loc. Inr (loc \<in> set (List.map_filter Locator names))),
      find_element =
        (\<lambda>loc. if loc \<in> set (List.map_filter Locator names) then Inr canvas
               else Inl NoSuchElementException),
      find_elements = (\<lambda>loc. Inr []),
      elem_find_elements = (\<lambda>e loc. Inr []),
      click = (\<lambda>e. Inr ()),
      extract_image_from_canvas = (\<lambda>e. Inr qr),
      parse_search_result = parse_search_result_model,
      stop_in_sleep = False\<rparr>"

text \<open>A page on which every presence check fails with a driver error (a lost connection).\<close>

definition broken :: page where
  "broken = (showing [] [])\<lparr>is_present := (\<lambda>loc. Inl WebDriverException)\<rparr>"

text \<open>
  A page that shows the QR canvas but whose export fails because the canvas was redrawn
  in between.
\<close>

definition stale_qr :: page where
  "stale_qr =
     (showing [''QR_CODE''] [])\<lparr>extract_image_from_canvas :=
        (\<lambda>e. Inl StaleElementReferenceException)\<rparr>"

text \<open>
  A running client that has entered QR_AUTH and holds the given payload.
\<close>

definition at_qr :: "bytes \<Rightarrow> client" where
  "at_qr qr =
     Client_init\<lparr>running := True,
       driver := Some (get ''https://web.whatsapp.com'' init_driver),
       qr_binary := Some qr, state := Some QR_AUTH\<rparr>"

text \<open>
  A page that shows the loading screen but on which the check for the chats-loading
  notice fails with a driver error.
\<close>

definition loading_lost :: page where
  "loading_lost =
     (showing [''LOADING''] [])\<lparr>is_present :=
        (\<lambda>loc. if Locator ''LOADING_CHATS'' = Some loc then Inl WebDriverException
               else Inr (loc \<in> set (List.map_filter Locator [''LOADING''])))\<rparr>"

text \<open>The client after the loop has seen the login screen and then an unrecognised page.\<close>

definition after_auth :: client where
  "after_auth = snd (run Locator [showing [''AUTH''] [], showing [] []] Client_init)"

text \<open>The client after the loop has started and before its first iteration.\<close>

definition at_start :: client where
  "at_start = snd (run Locator [] Client_init)"

text \<open>A fragment with one empty div beside a titled span.\<close>

definition div_beside_span :: element where
  "div_beside_span =
     Element ''div'' [] None []
       [Element ''div'' ''HDR'' None [] [], Element ''span'' ''x'' (Some ''x'') [] []]"

section \<open>Properties\<close>

subsection \<open>The locator table\<close>

text \<open>
  C9. For a name whose upper-cased form is a defined locator attribute,
  \<^verbatim>\<open>set_locator(name, loc)\<close> returns True, a following \<^verbatim>\<open>get_locator(name)\<close> returns
  exactly \<open>loc\<close>, and every other entry of the table is unchanged. For a name whose
  upper-cased form is not a defined attribute, \<^verbatim>\<open>set_locator\<close> returns False and
  leaves the whole table unchanged, and \<^verbatim>\<open>get_locator\<close> returns None for it.
\<close>

theorem set_locator_get_locator:
  "(upper name \<in> dom cls \<longrightarrow>
      fst (set_locator name loc cls) = True \<and>
      get_locator name (snd (set_locator name loc cls)) = Some loc \<and>
      (\<forall>other. other \<noteq> upper name \<longrightarrow> snd (set_locator name loc cls) other = cls other)) \<and>
   (upper name \<notin> dom cls \<longrightarrow>
      set_locator name loc cls = (False, cls) \<and> get_locator name cls = None)"
  by (auto simp: set_locator_def get_locator_def Let_def)

theorem set_locator_get_locator_witness:
  "upper ''qr_code'' \<in> dom Locator \<and>
   fst (set_locator ''qr_code'' (''id'', ''qr'') Locator) = True \<and>
   get_locator ''qr_code'' (snd (set_locator ''qr_code'' (''id'', ''qr'') Locator)) = Some (''id'', ''qr'') \<and>
   snd (set_locator ''qr_code'' (''id'', ''qr'') Locator) ''AUTH'' = Locator ''AUTH'' \<and>
   upper ''qr_canvas'' \<notin> dom Locator \<and>
   set_locator ''qr_canvas'' (''id'', ''qr'') Locator = (False, Locator) \<and>
   get_locator ''qr_canvas'' Locator = None"
proof -
  have defined: "upper ''qr_code'' \<in> dom Locator"
    by (simp add: upper_def upper_char_def Locator_def Locator_attrs_def dom_def)
  have other: "''AUTH'' \<noteq> upper ''qr_code''"
    by (simp add: upper_def upper_char_def)
  have undefined: "upper ''qr_canvas'' \<notin> dom Locator"
    by (simp add: upper_def upper_char_def Locator_def Locator_attrs_def dom_def)
  from set_locator_get_locator [of "''qr_code''" Locator "(''id'', ''qr'')"] defined other
  have first: "fst (set_locator ''qr_code'' (''id'', ''qr'') Locator) = True \<and>
      get_locator ''qr_code'' (snd (set_locator ''qr_code'' (''id'', ''qr'') Locator)) = Some (''id'', ''qr'') \<and>
      snd (set_locator ''qr_code'' (''id'', ''qr'') Locator) ''AUTH'' = Locator ''AUTH''"
    by blast
  from set_locator_get_locator [of "''qr_canvas''" Locator "(''id'', ''qr'')"] undefined
  have second: "set_locator ''qr_canvas'' (''id'', ''qr'') Locator = (False, Locator) \<and>
      get_locator ''qr_canvas'' Locator = None"
    by blast
  from defined undefined first second show ?thesis by blast
qed

subsection \<open>The state classifier\<close>

text \<open>
  C6. With the four state locators defined in the table, the classifier checks
  LOGGED_IN, then LOADING, then QR_CODE, then AUTH, and answers the state of the first
  locator that is present without looking at the later ones (their checks may even
  fail); when none of the four is present it answers Indeterminate (\<open>None\<close>).
\<close>

theorem get_state_order:
  assumes "cls ''LOGGED_IN'' = Some logged_in_loc" and "cls ''LOADING'' = Some loading_loc"
    and "cls ''QR_CODE'' = Some qr_code_loc" and "cls ''AUTH'' = Some auth_loc"
  shows
    "(is_present p logged_in_loc = Inr True \<longrightarrow> get_state cls p = Inr (Some LOGGED_IN)) \<and>
     (is_present p logged_in_loc = Inr False \<and> is_present p loading_loc = Inr True \<longrightarrow>
        get_state cls p = Inr (Some LOADING)) \<and>
     (is_present p logged_in_loc = Inr False \<and> is_present p loading_loc = Inr False \<and>
      is_present p qr_code_loc = Inr True \<longrightarrow> get_state cls p = Inr (Some QR_AUTH)) \<and>
     (is_present p logged_in_loc = Inr False \<and> is_present p loading_loc = Inr False \<and>
      is_present p qr_code_loc = Inr False \<and> is_present p auth_loc = Inr True \<longrightarrow>
        get_state cls p = Inr (Some AUTH)) \<and>
     (is_present p logged_in_loc = Inr False \<and> is_present p loading_loc = Inr False \<and>
      is_present p qr_code_loc = Inr False \<and> is_present p auth_loc = Inr False \<longrightarrow>
        get_state cls p = Inr None)"
  using assms by (simp add: get_state_def present_def attr_def then_exn_def)

lemma Locator_lookup:
  "Locator ''LOGGED_IN'' = Some (XPATH, ''//div[@title='Chats']'')"
  "Locator ''LOADING'' = Some (XPATH, ''//div[//span[@data-icon='lock'] and contains(text(), 'End-to-end encrypted') and //progress]'')"
  "Locator ''QR_CODE'' = Some (XPATH, ''//canvas[@aria-label='Scan this QR code to link a device!']'')"
  "Locator ''AUTH'' = Some (XPATH, ''//div[contains(text(), 'Use WhatsApp on your computer')]'')"
  "Locator ''LOADING_CHATS'' = Some (XPATH, ''//div[text()='Loading your chats']'')"
  by (simp_all add: Locator_def Locator_attrs_def)

lemmas page_defs =
  showing_def broken_def stale_qr_def canvas_def Locator_lookup

lemma get_state_pages:
  "get_state Locator (showing [''LOGGED_IN'', ''LOADING'', ''QR_CODE'', ''AUTH''] qr) = Inr (Some LOGGED_IN)"
  "get_state Locator (showing [''LOADING'', ''QR_CODE'', ''AUTH''] qr) = Inr (Some LOADING)"
  "get_state Locator (showing [''QR_CODE'', ''AUTH''] qr) = Inr (Some QR_AUTH)"
  "get_state Locator (showing [''AUTH''] qr) = Inr (Some AUTH)"
  "get_state Locator (showing [''QR_CODE''] qr) = Inr (Some QR_AUTH)"
  "get_state Locator (showing [] qr) = Inr None"
  "get_state Locator stale_qr = Inr (Some QR_AUTH)"
  "get_state Locator broken = Inl WebDriverException"
  by (simp_all add: get_state_def present_def attr_def then_exn_def page_defs)

lemma extract_qr_pages:
  "extract_qr Locator (showing [''QR_CODE''] qr) = Inr qr"
  "extract_qr Locator (showing [''QR_CODE'', ''AUTH''] qr) = Inr qr"
  "extract_qr Locator stale_qr = Inl StaleElementReferenceException"
  by (simp_all add: extract_qr_def attr_def then_exn_def page_defs)

lemma no_stop_pages:
  "\<not> stop_in_sleep (showing names qr)" "\<not> stop_in_sleep broken" "\<not> stop_in_sleep stale_qr"
  by (simp_all add: page_defs)

theorem get_state_order_witness:
  "get_state Locator (showing [''LOGGED_IN'', ''LOADING'', ''QR_CODE'', ''AUTH''] []) = Inr (Some LOGGED_IN) \<and>
   get_state Locator (showing [''LOADING'', ''QR_CODE'', ''AUTH''] []) = Inr (Some LOADING) \<and>
   get_state Locator (showing [''QR_CODE'', ''AUTH''] []) = Inr (Some QR_AUTH) \<and>
   get_state Locator (showing [''AUTH''] []) = Inr (Some AUTH) \<and>
   get_state Locator (showing [] []) = Inr None"
proof -
  note order = get_state_order [OF Locator_lookup(1,2,3,4)]
  have "get_state Locator (showing [''LOGGED_IN'', ''LOADING'', ''QR_CODE'', ''AUTH''] []) = Inr (Some LOGGED_IN)"
    using order [of "showing [''LOGGED_IN'', ''LOADING'', ''QR_CODE'', ''AUTH''] []"]
    by (simp add: showing_def Locator_lookup)
  moreover have "get_state Locator (showing [''LOADING'', ''QR_CODE'', ''AUTH''] []) = Inr (Some LOADING)"
    using order [of "showing [''LOADING'', ''QR_CODE'', ''AUTH''] []"]
    by (simp add: showing_def Locator_lookup)
  moreover have "get_state Locator (showing [''QR_CODE'', ''AUTH''] []) = Inr (Some QR_AUTH)"
    using order [of "showing [''QR_CODE'', ''AUTH''] []"]
    by (simp add: showing_def Locator_lookup)
  moreover have "get_state Locator (showing [''AUTH''] []) = Inr (Some AUTH)"
    using order [of "showing [''AUTH''] []"]
    by (simp add: showing_def Locator_lookup)
  moreover have "get_state Locator (showing [] []) = Inr None"
    using order [of "showing [] []"]
    by (simp add: showing_def Locator_lookup)
  ultimately show ?thesis by blast
qed

subsection \<open>Stopping the client\<close>

text \<open>
  C10. \<^verbatim>\<open>stop()\<close> raises exactly when the driver is still \<^verbatim>\<open>None\<close>: called on a
  client whose loop has not created the driver (as the constructor leaves it), it
  raises AttributeError after writing the two flags, and it does not raise once the
  driver is there.
\<close>

theorem stop_before_driver:
  "fst (stop c) = (if driver c = None then Some AttributeError else None) \<and>
   driver Client_init = None \<and>
   stop Client_init = (Some AttributeError, Client_init\<lparr>running := False, quited := True\<rparr>)"
  by (simp add: stop_def Client_init_def Let_def split: option.splits)

subsection \<open>One iteration: what it logs and what it keeps\<close>

lemma sleep_fields [simp]:
  "events (sleep p c) = events c"
  "state (sleep p c) = state c"
  "qr_binary (sleep p c) = qr_binary c"
  "running (sleep p c) = (running c \<and> \<not> stop_in_sleep p)"
  by (simp_all add: sleep_def stop_def Let_def split: option.splits)

lemma sleep_no_stop [simp]: "\<not> stop_in_sleep p \<Longrightarrow> sleep p c = c"
  by (simp add: sleep_def)

lemma trigger_event_fields [simp]:
  "events (trigger_event ev c) = events c @ [ev]"
  "state (trigger_event ev c) = state c"
  "qr_binary (trigger_event ev c) = qr_binary c"
  "running (trigger_event ev c) = running c"
  "driver (trigger_event ev c) = driver c"
  "quited (trigger_event ev c) = quited c"
  by (simp_all add: trigger_event_def)

lemma state_entries_simps [simp]:
  "state_entries [] = []"
  "state_entries (ev # evs) =
     (case entry_state ev of None \<Rightarrow> state_entries evs | Some s \<Rightarrow> s # state_entries evs)"
  by (simp_all add: state_entries_def split: option.splits)

lemma state_entries_append [simp]:
  "state_entries (evs @ evs') = state_entries evs @ state_entries evs'"
  by (induction evs) (simp_all split: option.splits)

lemma fold_unread_fields:
  "events (fold (\<lambda>chat. trigger_event (on_unread_chat chat)) chats c) =
     events c @ map on_unread_chat chats \<and>
   state (fold (\<lambda>chat. trigger_event (on_unread_chat chat)) chats c) = state c \<and>
   qr_binary (fold (\<lambda>chat. trigger_event (on_unread_chat chat)) chats c) = qr_binary c \<and>
   running (fold (\<lambda>chat. trigger_event (on_unread_chat chat)) chats c) = running c \<and>
   driver (fold (\<lambda>chat. trigger_event (on_unread_chat chat)) chats c) = driver c \<and>
   quited (fold (\<lambda>chat. trigger_event (on_unread_chat chat)) chats c) = quited c"
  by (induction chats arbitrary: c) simp_all

lemma state_entries_unread [simp]: "state_entries (map on_unread_chat chats) = []"
  by (induction chats) simp_all

lemma transition_Inr:
  assumes "transition cls p s c = Inr c1"
  shows "\<exists>ev. entry_state ev = Some s \<and> events c1 = events c @ [ev]"
    and "state c1 = state c" and "running c1 = running c"
    and "driver c1 = driver c" and "quited c1 = quited c"
  using assms
  by (cases s; auto simp: transition_def then_exn_def split: sum.splits)+

lemma steady_Inr:
  assumes "steady cls p s c = Inr c1"
  shows "\<exists>new. events c1 = events c @ new \<and> state_entries new = [] \<and> on_tick \<notin> set new"
    and "state c1 = state c" and "running c1 = running c"
    and "driver c1 = driver c" and "quited c1 = quited c"
  using assms
  by (auto simp: steady_def then_exn_def fold_unread_fields
      split: sum.splits if_splits)

lemma tick_raises: "tick cls p c = (Some e, c1) \<Longrightarrow> c1 = c"
  by (auto simp: tick_def end_of_iteration_def split: sum.splits option.splits if_splits)

lemma tick_indeterminate: "get_state cls p = Inr None \<Longrightarrow> tick cls p c = (None, sleep p c)"
  by (simp add: tick_def)

lemma tick_transition:
  assumes "get_state cls p = Inr (Some s)" and "Some s \<noteq> state c"
    and "tick cls p c = (None, c1)"
  shows "\<exists>ev. entry_state ev = Some s \<and> events c1 = events c @ [ev, on_tick]"
    and "state c1 = Some s"
    and "running c1 = (running c \<and> \<not> stop_in_sleep p)"
proof -
  from assms obtain c2 where c2: "transition cls p s c = Inr c2"
    and c1: "c1 = sleep p (trigger_event on_tick (c2\<lparr>state := Some s\<rparr>))"
    by (auto simp: tick_def end_of_iteration_def split: sum.splits)
  from transition_Inr(1) [OF c2] c1
  show "\<exists>ev. entry_state ev = Some s \<and> events c1 = events c @ [ev, on_tick]"
    by auto
  show "state c1 = Some s" using c1 by simp
  show "running c1 = (running c \<and> \<not> stop_in_sleep p)"
    using c1 transition_Inr(3) [OF c2] by simp
qed

lemma tick_steady:
  assumes "get_state cls p = Inr (Some s)" and "state c = Some s"
    and "tick cls p c = (None, c1)"
  shows "\<exists>new. events c1 = events c @ new @ [on_tick] \<and> state_entries new = [] \<and>
           on_tick \<notin> set new"
    and "state c1 = Some s"
    and "running c1 = (running c \<and> \<not> stop_in_sleep p)"
proof -
  from assms obtain c2 where c2: "steady cls p s c = Inr c2"
    and c1: "c1 = sleep p (trigger_event on_tick c2)"
    by (auto simp: tick_def end_of_iteration_def split: sum.splits)
  from steady_Inr(1) [OF c2] c1
  show "\<exists>new. events c1 = events c @ new @ [on_tick] \<and> state_entries new = [] \<and>
           on_tick \<notin> set new"
    by auto
  show "state c1 = Some s" using c1 steady_Inr(2) [OF c2] assms(2) by simp
  show "running c1 = (running c \<and> \<not> stop_in_sleep p)"
    using c1 steady_Inr(3) [OF c2] by simp
qed

lemma tick_driver:
  assumes "tick cls p c = (r, c1)" and "\<not> stop_in_sleep p"
  shows "driver c1 = driver c \<and> quited c1 = quited c"
proof (cases r)
  case (Some e)
  with assms tick_raises show ?thesis by blast
next
  case None
  show ?thesis
  proof (cases "get_state cls p")
    case (Inl e)
    with assms None show ?thesis by (simp add: tick_def)
  next
    case (Inr cs)
    show ?thesis
    proof (cases cs)
      case None
      with Inr assms show ?thesis by (simp add: tick_def)
    next
      case (Some s)
      show ?thesis
      proof (cases "state c = Some s")
        case True
        with assms Inr Some \<open>r = None\<close> obtain c2 where c2: "steady cls p s c = Inr c2"
          and c1: "c1 = sleep p (trigger_event on_tick c2)"
          by (auto simp: tick_def end_of_iteration_def split: sum.splits)
        with steady_Inr(4,5) [OF c2] assms(2) show ?thesis by simp
      next
        case False
        with assms Inr Some \<open>r = None\<close> obtain c2 where c2: "transition cls p s c = Inr c2"
          and c1: "c1 = sleep p (trigger_event on_tick (c2\<lparr>state := Some s\<rparr>))"
          by (auto simp: tick_def end_of_iteration_def split: sum.splits)
        with transition_Inr(4,5) [OF c2] assms(2) show ?thesis by simp
      qed
    qed
  qed
qed

lemma tick_state:
  assumes "tick cls p c = (None, c1)" and "get_state cls p = Inr classified"
  shows "state c1 = previous_state (state c) [classified]"
    and "running c1 = (running c \<and> \<not> stop_in_sleep p)"
proof -
  show "state c1 = previous_state (state c) [classified]"
  proof (cases classified)
    case None
    with assms show ?thesis by (auto simp: tick_indeterminate)
  next
    case (Some s)
    show ?thesis
    proof (cases "state c = Some s")
      case True
      with tick_steady(2) [of cls p s c c1] assms Some show ?thesis by simp
    next
      case False
      then have "Some s \<noteq> state c" by auto
      with tick_transition(2) [of cls p s c c1] assms Some show ?thesis by simp
    qed
  qed
  show "running c1 = (running c \<and> \<not> stop_in_sleep p)"
  proof (cases classified)
    case None
    with assms show ?thesis by (auto simp: tick_indeterminate)
  next
    case (Some s)
    show ?thesis
    proof (cases "state c = Some s")
      case True
      with tick_steady(3) [of cls p s c c1] assms Some show ?thesis by simp
    next
      case False
      then have "Some s \<noteq> state c" by auto
      with tick_transition(3) [of cls p s c c1] assms Some show ?thesis by simp
    qed
  qed
qed

lemma previous_state_Cons:
  "previous_state prev (classified # outputs) = previous_state (previous_state prev [classified]) outputs"
  by (cases classified) simp_all

lemma while_running_snoc:
  "while_running cls (ps @ [p]) c =
     (case while_running cls ps c of
        (Some e, c1) \<Rightarrow> (Some e, c1)
      | (None, c1) \<Rightarrow> while_running cls [p] c1)"
  by (induction ps arbitrary: c) (auto split: prod.splits option.splits)

lemma while_running_state:
  assumes "while_running cls ps c = (None, c1)" and "running c"
    and "\<forall>q\<in>set ps. \<not> stop_in_sleep q"
    and "map (get_state cls) ps = map Inr outputs"
  shows "state c1 = previous_state (state c) outputs \<and> running c1"
  using assms
proof (induction ps arbitrary: c outputs)
  case Nil
  then show ?case by simp
next
  case (Cons p ps)
  from Cons.prems(4) obtain classified rest where outputs: "outputs = classified # rest"
    and out: "get_state cls p = Inr classified" and rest: "map (get_state cls) ps = map Inr rest"
    by (cases outputs) auto
  from Cons.prems(1,2) obtain c' where t: "tick cls p c = (None, c')"
    and w: "while_running cls ps c' = (None, c1)"
    by (auto split: prod.splits option.splits)
  from tick_state [OF t out] Cons.prems(2,3)
  have st: "state c' = previous_state (state c) [classified]" and run': "running c'"
    by simp_all
  from Cons.IH [OF w run' _ rest] Cons.prems(3)
  have "state c1 = previous_state (state c') rest \<and> running c1" by simp
  with st outputs show ?case
    using previous_state_Cons [of "state c" classified rest] by simp
qed

lemma while_running_driver:
  assumes "while_running cls ps c = (r, c1)" and "\<forall>p\<in>set ps. \<not> stop_in_sleep p"
  shows "driver c1 = driver c \<and> quited c1 = quited c"
  using assms
proof (induction ps arbitrary: c)
  case Nil
  then show ?case by simp
next
  case (Cons p ps)
  show ?case
  proof (cases "running c")
    case False
    with Cons.prems show ?thesis by simp
  next
    case True
    obtain r' c' where t: "tick cls p c = (r', c')" by (cases "tick cls p c")
    from tick_driver [OF t] Cons.prems(2)
    have same: "driver c' = driver c \<and> quited c' = quited c" by simp
    show ?thesis
    proof (cases r')
      case (Some e)
      with True t Cons.prems(1) have "c1 = c'" by simp
      with same show ?thesis by simp
    next
      case None
      with True t Cons.prems(1) have "while_running cls ps c' = (r, c1)" by simp
      from Cons.IH [OF this] Cons.prems(2) same show ?thesis by simp
    qed
  qed
qed

lemma while_running_indeterminate:
  "\<forall>p\<in>set ps. get_state cls p = Inr None \<Longrightarrow>
     fst (while_running cls ps c) = None \<and> events (snd (while_running cls ps c)) = events c"
  by (induction ps arbitrary: c) (simp_all add: tick_indeterminate)

lemmas loop_defs =
  run_def main_loop_def tick_def transition_def steady_def end_of_iteration_def
  get_state_pages extract_qr_pages no_stop_pages then_exn_def
  sleep_def trigger_event_def Client_init_def init_driver_def get_def at_qr_def

subsection \<open>State-entry events\<close>

lemma tick_no_transition:
  assumes "get_state cls p = Inr (state c)"
  shows "(\<exists>new. events (snd (tick cls p c)) = events c @ new \<and> state_entries new = []) \<and>
         state (snd (tick cls p c)) = state c"
proof (cases "state c")
  case None
  with assms show ?thesis by (simp add: tick_def)
next
  case (Some s)
  show ?thesis
  proof (cases "steady cls p s c")
    case (Inl e)
    with assms Some show ?thesis by (simp add: tick_def)
  next
    case (Inr c2)
    from steady_Inr(1) [OF Inr] obtain new where
      new: "events c2 = events c @ new" "state_entries new = []"
      by blast
    have "tick cls p c = (None, sleep p (trigger_event on_tick c2))"
      using assms Some Inr by (simp add: tick_def end_of_iteration_def)
    then have "events (snd (tick cls p c)) = events c @ (new @ [on_tick])"
      and "state (snd (tick cls p c)) = state c"
      using new steady_Inr(2) [OF Inr] by simp_all
    moreover have "state_entries (new @ [on_tick]) = []"
      using new by simp
    ultimately show ?thesis by blast
  qed
qed

lemma tick_enters:
  assumes "get_state cls p = Inr (Some s)" and "state c \<noteq> Some s"
  shows "s = AUTH \<Longrightarrow> tick cls p c =
           (None, sleep p (trigger_event on_tick ((trigger_event on_auth c)\<lparr>state := Some AUTH\<rparr>)))"
    and "s = LOGGED_IN \<Longrightarrow> tick cls p c =
           (None, sleep p (trigger_event on_tick
              ((trigger_event on_logged_in c)\<lparr>state := Some LOGGED_IN\<rparr>)))"
    and "s = QR_AUTH \<Longrightarrow> extract_qr cls p = Inr qr \<Longrightarrow> tick cls p c =
           (None, sleep p (trigger_event on_tick
              ((trigger_event (on_qr qr) (c\<lparr>qr_binary := Some qr\<rparr>))\<lparr>state := Some QR_AUTH\<rparr>)))"
    and "s = QR_AUTH \<Longrightarrow> extract_qr cls p = Inl e \<Longrightarrow> tick cls p c = (Some e, c)"
    and "s = LOADING \<Longrightarrow> present cls p ''LOADING_CHATS'' = Inr loading_chats \<Longrightarrow> tick cls p c =
           (None, sleep p (trigger_event on_tick
              ((trigger_event (on_loading loading_chats) c)\<lparr>state := Some LOADING\<rparr>)))"
    and "s = LOADING \<Longrightarrow> present cls p ''LOADING_CHATS'' = Inl e \<Longrightarrow> tick cls p c = (Some e, c)"
  using assms
  by (auto simp: tick_def transition_def then_exn_def end_of_iteration_def)

lemma while_running_stored:
  assumes "while_running cls ps c = (r, c1)" and "running c"
    and "\<forall>q\<in>set ps. \<not> stop_in_sleep q"
    and "map (get_state cls) ps = map Inr outputs"
  shows "\<exists>n\<le>length ps. state c1 = previous_state (state c) (take n outputs) \<and>
           (case r of
              None \<Rightarrow> n = length ps \<and> running c1
            | Some e \<Rightarrow> n < length ps \<and> tick cls (ps ! n) c1 = (Some e, c1))"
  using assms
proof (induction ps arbitrary: c outputs)
  case Nil
  then show ?case by auto
next
  case (Cons p ps)
  from Cons.prems(4) obtain classified rest where outputs: "outputs = classified # rest"
    and out: "get_state cls p = Inr classified" and rest: "map (get_state cls) ps = map Inr rest"
    by (cases outputs) auto
  obtain r' c' where t: "tick cls p c = (r', c')" by (cases "tick cls p c")
  show ?case
  proof (cases r')
    case (Some e)
    with t Cons.prems(1,2) have "r = Some e" "c1 = c'" by simp_all
    moreover from t Some tick_raises have "c' = c" by blast
    ultimately have "state c1 = previous_state (state c) (take 0 outputs) \<and>
        (case r of None \<Rightarrow> 0 = length (p # ps) \<and> running c1
         | Some e \<Rightarrow> 0 < length (p # ps) \<and> tick cls ((p # ps) ! 0) c1 = (Some e, c1))"
      using t Some by simp
    then show ?thesis by blast
  next
    case None
    with t Cons.prems(1,2) have w: "while_running cls ps c' = (r, c1)" by simp
    from tick_state [OF _ out] t None Cons.prems(2,3)
    have st: "state c' = previous_state (state c) [classified]" and run': "running c'"
      by simp_all
    from Cons.IH [OF w run' _ rest] Cons.prems(3)
    obtain n where n: "n \<le> length ps" "state c1 = previous_state (state c') (take n rest)"
      "case r of None \<Rightarrow> n = length ps \<and> running c1
       | Some e \<Rightarrow> n < length ps \<and> tick cls (ps ! n) c1 = (Some e, c1)"
      by auto
    have "state c1 = previous_state (state c) (take (Suc n) outputs)"
      using n(2) st outputs previous_state_Cons [of "state c" classified "take n rest"] by simp
    moreover have "case r of None \<Rightarrow> Suc n = length (p # ps) \<and> running c1
       | Some e \<Rightarrow> Suc n < length (p # ps) \<and> tick cls ((p # ps) ! Suc n) c1 = (Some e, c1)"
      using n(3) by (cases r) simp_all
    moreover have "Suc n \<le> length (p # ps)" using n(1) by simp
    ultimately show ?thesis by blast
  qed
qed

text \<open>
  C1, as amended. Run the loop from its start on any sequence of pages the classifier
  answers, with no \<^verbatim>\<open>stop()\<close> in between. The stored state is the last
  classification, among the iterations that completed, that was not Indeterminate
  (\<open>None\<close> at the start); when no iteration raised these are all of them and the
  loop goes on with the next page. In that next iteration: an Indeterminate
  classification fires no event and keeps the stored state; a classification equal to
  the stored state fires no state-entry event and keeps it; AUTH or LOGGED_IN different
  from the stored state fires exactly \<^verbatim>\<open>on_auth\<close> or \<^verbatim>\<open>on_logged_in\<close>, then
  \<^verbatim>\<open>on_tick\<close>, and stores the new state; QR_AUTH or LOADING different from the stored
  state does the same with \<^verbatim>\<open>on_qr\<close> and the extracted bytes, or \<^verbatim>\<open>on_loading\<close> and
  the flag, when the extraction or the check of the chats-loading notice returns, and
  when that call raises no event fires, the stored state is kept and the exception
  leaves the iteration.
\<close>

theorem state_entry_events:
  assumes "run cls ps c0 = (r1, c1)" and "\<forall>q\<in>set ps. \<not> stop_in_sleep q"
    and "map (get_state cls) ps = map Inr outputs" and "get_state cls p = Inr classified"
  shows
    "(\<exists>n\<le>length ps. state c1 = previous_state None (take n outputs) \<and>
        (case r1 of
           None \<Rightarrow> n = length ps
         | Some e \<Rightarrow> n < length ps \<and> tick cls (ps ! n) c1 = (Some e, c1))) \<and>
     (r1 = None \<longrightarrow> run cls (ps @ [p]) c0 = tick cls p c1) \<and>
     (classified = None \<longrightarrow>
        tick cls p c1 = (None, sleep p c1) \<and> events (sleep p c1) = events c1 \<and>
        state (sleep p c1) = state c1) \<and>
     (classified = state c1 \<longrightarrow>
        (\<exists>new. events (snd (tick cls p c1)) = events c1 @ new \<and> state_entries new = []) \<and>
        state (snd (tick cls p c1)) = state c1) \<and>
     (classified = Some AUTH \<and> state c1 \<noteq> Some AUTH \<longrightarrow>
        fst (tick cls p c1) = None \<and>
        events (snd (tick cls p c1)) = events c1 @ [on_auth, on_tick] \<and>
        state (snd (tick cls p c1)) = Some AUTH) \<and>
     (classified = Some LOGGED_IN \<and> state c1 \<noteq> Some LOGGED_IN \<longrightarrow>
        fst (tick cls p c1) = None \<and>
        events (snd (tick cls p c1)) = events c1 @ [on_logged_in, on_tick] \<and>
        state (snd (tick cls p c1)) = Some LOGGED_IN) \<and>
     (classified = Some QR_AUTH \<and> state c1 \<noteq> Some QR_AUTH \<longrightarrow>
        (case extract_qr cls p of
           Inr qr \<Rightarrow>
             fst (tick cls p c1) = None \<and>
             events (snd (tick cls p c1)) = events c1 @ [on_qr qr, on_tick] \<and>
             state (snd (tick cls p c1)) = Some QR_AUTH
         | Inl e \<Rightarrow> tick cls p c1 = (Some e, c1))) \<and>
     (classified = Some LOADING \<and> state c1 \<noteq> Some LOADING \<longrightarrow>
        (case present cls p ''LOADING_CHATS'' of
           Inr loading_chats \<Rightarrow>
             fst (tick cls p c1) = None \<and>
             events (snd (tick cls p c1)) = events c1 @ [on_loading loading_chats, on_tick] \<and>
             state (snd (tick cls p c1)) = Some LOADING
         | Inl e \<Rightarrow> tick cls p c1 = (Some e, c1)))"
proof -
  define start where "start =
    trigger_event on_start
      (c0\<lparr>running := True, driver := Some (get ''https://web.whatsapp.com'' init_driver),
          qr_binary := None, state := None\<rparr>)"
  have run_eq: "run cls qs c0 = while_running cls qs start" for qs
    by (simp add: run_def main_loop_def start_def)
  have start: "running start" "state start = None"
    by (simp_all add: start_def)
  from assms(1) have w: "while_running cls ps start = (r1, c1)"
    by (simp add: run_eq)
  from while_running_stored [OF w start(1) assms(2,3)] start(2)
  obtain n where n: "n \<le> length ps" "state c1 = previous_state None (take n outputs)"
    "case r1 of None \<Rightarrow> n = length ps \<and> running c1
     | Some e \<Rightarrow> n < length ps \<and> tick cls (ps ! n) c1 = (Some e, c1)"
    by auto
  have stored: "\<exists>n\<le>length ps. state c1 = previous_state None (take n outputs) \<and>
        (case r1 of
           None \<Rightarrow> n = length ps
         | Some e \<Rightarrow> n < length ps \<and> tick cls (ps ! n) c1 = (Some e, c1))"
  proof (cases r1)
    case None
    with n show ?thesis by (intro exI [of _ n]) simp
  next
    case (Some e)
    with n show ?thesis by (intro exI [of _ n]) simp
  qed
  have next_tick: "r1 = None \<longrightarrow> run cls (ps @ [p]) c0 = tick cls p c1"
  proof
    assume none: "r1 = None"
    with n(3) have "running c1" by simp
    with w none show "run cls (ps @ [p]) c0 = tick cls p c1"
      by (cases "tick cls p c1") (auto simp: run_eq while_running_snoc split: option.splits)
  qed
  have indeterminate: "classified = None \<longrightarrow>
        tick cls p c1 = (None, sleep p c1) \<and> events (sleep p c1) = events c1 \<and>
        state (sleep p c1) = state c1"
    using assms(4) by (simp add: tick_indeterminate)
  have unchanged: "classified = state c1 \<longrightarrow>
        (\<exists>new. events (snd (tick cls p c1)) = events c1 @ new \<and> state_entries new = []) \<and>
        state (snd (tick cls p c1)) = state c1"
    using assms(4) tick_no_transition [of cls p c1] by auto
  have auth: "classified = Some AUTH \<and> state c1 \<noteq> Some AUTH \<longrightarrow>
        fst (tick cls p c1) = None \<and>
        events (snd (tick cls p c1)) = events c1 @ [on_auth, on_tick] \<and>
        state (snd (tick cls p c1)) = Some AUTH"
    using assms(4) tick_enters(1) [of cls p AUTH c1] by auto
  have logged_in: "classified = Some LOGGED_IN \<and> state c1 \<noteq> Some LOGGED_IN \<longrightarrow>
        fst (tick cls p c1) = None \<and>
        events (snd (tick cls p c1)) = events c1 @ [on_logged_in, on_tick] \<and>
        state (snd (tick cls p c1)) = Some LOGGED_IN"
    using assms(4) tick_enters(2) [of cls p LOGGED_IN c1] by auto
  have qr_auth: "classified = Some QR_AUTH \<and> state c1 \<noteq> Some QR_AUTH \<longrightarrow>
        (case extract_qr cls p of
           Inr qr \<Rightarrow>
             fst (tick cls p c1) = None \<and>
             events (snd (tick cls p c1)) = events c1 @ [on_qr qr, on_tick] \<and>
             state (snd (tick cls p c1)) = Some QR_AUTH
         | Inl e \<Rightarrow> tick cls p c1 = (Some e, c1))"
    using assms(4) tick_enters(3,4) [of cls p QR_AUTH c1]
    by (auto split: sum.splits)
  have loading: "classified = Some LOADING \<and> state c1 \<noteq> Some LOADING \<longrightarrow>
        (case present cls p ''LOADING_CHATS'' of
           Inr loading_chats \<Rightarrow>
             fst (tick cls p c1) = None \<and>
             events (snd (tick cls p c1)) = events c1 @ [on_loading loading_chats, on_tick] \<and>
             state (snd (tick cls p c1)) = Some LOADING
         | Inl e \<Rightarrow> tick cls p c1 = (Some e, c1))"
    using assms(4) tick_enters(5,6) [of cls p LOADING c1]
    by (auto split: sum.splits)
  from stored next_tick indeterminate unchanged auth logged_in qr_auth loading
  show ?thesis by blast
qed

lemma get_state_more_pages:
  "get_state Locator (showing [''LOGGED_IN''] qr) = Inr (Some LOGGED_IN)"
  "get_state Locator (showing [''LOADING''] qr) = Inr (Some LOADING)"
  "get_state Locator loading_lost = Inr (Some LOADING)"
  by (simp_all add: get_state_def present_def attr_def then_exn_def loading_lost_def page_defs)

lemma loading_chats_pages:
  "present Locator (showing [''LOADING''] qr) ''LOADING_CHATS'' = Inr False"
  "present Locator loading_lost ''LOADING_CHATS'' = Inl WebDriverException"
  by (simp_all add: present_def attr_def then_exn_def loading_lost_def page_defs)

lemma run_to_after_auth:
  "run Locator [showing [''AUTH''] [], showing [] []] Client_init = (None, after_auth)"
  "state after_auth = Some AUTH"
  by (simp_all add: after_auth_def loop_defs)

lemma run_to_at_start:
  "run Locator [] Client_init = (None, at_start)"
  "state at_start = None"
  by (simp_all add: at_start_def loop_defs)

theorem state_entry_events_witness:
  "run Locator [showing [''AUTH''] [], showing [] []] Client_init = (None, after_auth) \<and>
   state after_auth = previous_state None [Some AUTH, None] \<and>
   run Locator [showing [''AUTH''] [], showing [] [], showing [''QR_CODE''] [1, 2]] Client_init =
     tick Locator (showing [''QR_CODE''] [1, 2]) after_auth \<and>
   tick Locator (showing [] []) after_auth = (None, sleep (showing [] []) after_auth) \<and>
   (\<exists>new. events (snd (tick Locator (showing [''AUTH''] []) after_auth)) = events after_auth @ new \<and>
          state_entries new = []) \<and>
   events (snd (tick Locator (showing [''LOGGED_IN''] []) after_auth)) =
     events after_auth @ [on_logged_in, on_tick] \<and>
   events (snd (tick Locator (showing [''QR_CODE''] [1, 2]) after_auth)) =
     events after_auth @ [on_qr [1, 2], on_tick] \<and>
   state (snd (tick Locator (showing [''QR_CODE''] [1, 2]) after_auth)) = Some QR_AUTH \<and>
   tick Locator stale_qr after_auth = (Some StaleElementReferenceException, after_auth) \<and>
   events (snd (tick Locator (showing [''LOADING''] []) after_auth)) =
     events after_auth @ [on_loading False, on_tick] \<and>
   tick Locator loading_lost after_auth = (Some WebDriverException, after_auth) \<and>
   events (snd (tick Locator (showing [''AUTH''] []) at_start)) =
     events at_start @ [on_auth, on_tick]"
proof -
  let ?ps = "[showing [''AUTH''] [], showing [] []]"
  have no_stop: "\<forall>q\<in>set ?ps. \<not> stop_in_sleep q"
    by (simp add: no_stop_pages)
  have outputs: "map (get_state Locator) ?ps = map Inr [Some AUTH, None]"
    by (simp add: get_state_pages)
  note after = state_entry_events [OF run_to_after_auth(1) no_stop outputs]
  have no_stop0: "\<forall>q\<in>set ([] :: page list). \<not> stop_in_sleep q"
    and outputs0: "map (get_state Locator) [] = map Inr []"
    by simp_all
  note first = state_entry_events [OF run_to_at_start(1) no_stop0 outputs0]
  from after [OF get_state_pages(6), of "[]"]
  have stored: "state after_auth = previous_state None [Some AUTH, None]"
    and indeterminate: "tick Locator (showing [] []) after_auth =
      (None, sleep (showing [] []) after_auth)"
    by simp_all
  from after [OF get_state_pages(4), of "[]"] run_to_after_auth(2)
  have steady_auth: "\<exists>new. events (snd (tick Locator (showing [''AUTH''] []) after_auth)) =
      events after_auth @ new \<and> state_entries new = []"
    by simp
  from after [OF get_state_more_pages(1), of "[]"] run_to_after_auth(2)
  have logged_in: "events (snd (tick Locator (showing [''LOGGED_IN''] []) after_auth)) =
     events after_auth @ [on_logged_in, on_tick]"
    by simp
  from after [OF get_state_pages(5), of "[1, 2]"] run_to_after_auth(2)
    extract_qr_pages(1) [of "[1, 2]"]
  have qr: "run Locator (?ps @ [showing [''QR_CODE''] [1, 2]]) Client_init =
      tick Locator (showing [''QR_CODE''] [1, 2]) after_auth"
    "events (snd (tick Locator (showing [''QR_CODE''] [1, 2]) after_auth)) =
      events after_auth @ [on_qr [1, 2], on_tick]"
    "state (snd (tick Locator (showing [''QR_CODE''] [1, 2]) after_auth)) = Some QR_AUTH"
    by simp_all
  from after [OF get_state_pages(7)] run_to_after_auth(2) extract_qr_pages(3)
  have stale: "tick Locator stale_qr after_auth = (Some StaleElementReferenceException, after_auth)"
    by simp
  from after [OF get_state_more_pages(2), of "[]"] run_to_after_auth(2)
    loading_chats_pages(1) [of "[]"]
  have loading: "events (snd (tick Locator (showing [''LOADING''] []) after_auth)) =
     events after_auth @ [on_loading False, on_tick]"
    by simp
  from after [OF get_state_more_pages(3)] run_to_after_auth(2) loading_chats_pages(2)
  have lost: "tick Locator loading_lost after_auth = (Some WebDriverException, after_auth)"
    by simp
  from first [OF get_state_pages(4), of "[]"] run_to_at_start(2)
  have auth: "events (snd (tick Locator (showing [''AUTH''] []) at_start)) =
     events at_start @ [on_auth, on_tick]"
    by simp
  from run_to_after_auth(1) stored indeterminate steady_auth logged_in qr stale loading lost auth
  show ?thesis by simp
qed

text \<open>
  The claim as first stated fails: on a page classified QR_AUTH whose canvas export
  raises, the first iteration is a transition, yet no state-entry event fires and the
  stored state stays \<open>None\<close>.
\<close>

theorem state_entry_events_counterexample:
  "get_state Locator stale_qr = Inr (Some QR_AUTH) \<and>
   run Locator [stale_qr] Client_init =
     (Some StaleElementReferenceException,
      \<lparr>running = True, quited = False,
       driver = Some \<lparr>url = ''https://web.whatsapp.com'', quit_calls = 0\<rparr>,
       qr_binary = None, state = None, events = [on_start]\<rparr>)"
  by (simp add: loop_defs)

subsection \<open>on_tick\<close>

text \<open>
  C2, as amended. In every completed iteration whose classification is a state,
  \<^verbatim>\<open>on_tick\<close> fires exactly once and is the last event of the iteration. An
  iteration classified Indeterminate sleeps and continues: it fires no event at all,
  \<^verbatim>\<open>on_tick\<close> included. So a loop whose classifier answers Indeterminate on every
  one of its iterations fires no \<^verbatim>\<open>on_tick\<close> and no state-entry event; its only
  event is the \<^verbatim>\<open>on_start\<close> fired before the loop.
\<close>

theorem on_tick_per_iteration:
  "(get_state cls p = Inr (Some s) \<and> tick cls p c = (None, c1) \<longrightarrow>
      (\<exists>new. events c1 = events c @ new @ [on_tick] \<and> on_tick \<notin> set new)) \<and>
   (get_state cls p = Inr None \<longrightarrow>
      tick cls p c = (None, sleep p c) \<and> events (sleep p c) = events c) \<and>
   ((\<forall>q\<in>set ps. get_state cls q = Inr None) \<longrightarrow>
      fst (run cls ps c) = None \<and> events (snd (run cls ps c)) = events c @ [on_start])"
proof (intro conjI impI)
  assume a: "get_state cls p = Inr (Some s) \<and> tick cls p c = (None, c1)"
  show "\<exists>new. events c1 = events c @ new @ [on_tick] \<and> on_tick \<notin> set new"
  proof (cases "state c = Some s")
    case True
    from tick_steady(1) [OF _ True] a show ?thesis by blast
  next
    case False
    then have "Some s \<noteq> state c" by auto
    from tick_transition(1) [OF _ this] a
    obtain ev where ev: "entry_state ev = Some s" "events c1 = events c @ [ev, on_tick]"
      by blast
    then have "ev \<noteq> on_tick" by auto
    with ev show ?thesis by auto
  qed
next
  assume "get_state cls p = Inr None"
  then show "tick cls p c = (None, sleep p c)" by (rule tick_indeterminate)
  show "events (sleep p c) = events c" by simp
next
  assume a: "\<forall>q\<in>set ps. get_state cls q = Inr None"
  from while_running_indeterminate [OF a]
  show "fst (run cls ps c) = None" by (simp add: run_def main_loop_def)
  from while_running_indeterminate [OF a]
  show "events (snd (run cls ps c)) = events c @ [on_start]"
    by (simp add: run_def main_loop_def)
qed

theorem on_tick_per_iteration_witness:
  "get_state Locator (showing [''AUTH''] []) = Inr (Some AUTH) \<and>
   (\<exists>new. events (snd (tick Locator (showing [''AUTH''] []) Client_init)) =
           events Client_init @ new @ [on_tick] \<and> on_tick \<notin> set new) \<and>
   get_state Locator (showing [] []) = Inr None \<and>
   tick Locator (showing [] []) Client_init = (None, sleep (showing [] []) Client_init) \<and>
   events (snd (run Locator [showing [] [], showing [] []] Client_init)) =
     events Client_init @ [on_start]"
proof -
  have auth: "get_state Locator (showing [''AUTH''] []) = Inr (Some AUTH)"
    and none: "get_state Locator (showing [] []) = Inr None"
    by (simp_all add: get_state_pages)
  have completes: "tick Locator (showing [''AUTH''] []) Client_init =
      (None, snd (tick Locator (showing [''AUTH''] []) Client_init))"
    by (simp add: loop_defs)
  have all_none: "\<forall>q\<in>set [showing [] [], showing [] []]. get_state Locator q = Inr None"
    by (simp add: get_state_pages)
  from on_tick_per_iteration [of Locator "showing [''AUTH''] []" AUTH Client_init
      "snd (tick Locator (showing [''AUTH''] []) Client_init)"] auth completes
  have first: "\<exists>new. events (snd (tick Locator (showing [''AUTH''] []) Client_init)) =
           events Client_init @ new @ [on_tick] \<and> on_tick \<notin> set new"
    by blast
  from on_tick_per_iteration [of Locator "showing [] []" AUTH Client_init Client_init] none
  have second: "tick Locator (showing [] []) Client_init =
      (None, sleep (showing [] []) Client_init)"
    by blast
  from on_tick_per_iteration [of Locator "showing [] []" AUTH Client_init Client_init
      "[showing [] [], showing [] []]"] all_none
  have third: "events (snd (run Locator [showing [] [], showing [] []] Client_init)) =
     events Client_init @ [on_start]"
    by blast
  from auth none first second third show ?thesis by blast
qed

text \<open>
  The claim as first stated fails: two Indeterminate iterations fire no \<^verbatim>\<open>on_tick\<close>,
  not two.
\<close>

theorem on_tick_count_counterexample:
  "get_state Locator (showing [] []) = Inr None \<and>
   run Locator [showing [] [], showing [] []] Client_init =
     (None,
      \<lparr>running = True, quited = False,
       driver = Some \<lparr>url = ''https://web.whatsapp.com'', quit_calls = 0\<rparr>,
       qr_binary = None, state = None, events = [on_start]\<rparr>) \<and>
   count_list (events (snd (run Locator [showing [] [], showing [] []] Client_init))) on_tick
     \<noteq> length [showing [] [], showing [] []]"
  by (simp add: get_state_pages run_def main_loop_def tick_def sleep_def no_stop_pages
      trigger_event_def Client_init_def init_driver_def get_def)

subsection \<open>QR change detection\<close>

text \<open>
  C3. In a steady QR_AUTH iteration whose extraction succeeds, the iteration
  completes; if the extracted bytes equal the stored payload, no \<^verbatim>\<open>on_qr_change\<close>
  fires (the only event is \<^verbatim>\<open>on_tick\<close>) and the stored payload is unchanged; if
  they differ, exactly one \<^verbatim>\<open>on_qr_change\<close> fires, carrying the new bytes, and the
  stored payload becomes the new bytes.
\<close>

theorem qr_change_detection:
  assumes "get_state cls p = Inr (Some QR_AUTH)" and "state c = Some QR_AUTH"
    and "extract_qr cls p = Inr qr"
  shows "fst (tick cls p c) = None \<and>
    (qr_binary c = Some qr \<longrightarrow>
       events (snd (tick cls p c)) = events c @ [on_tick] \<and>
       qr_binary (snd (tick cls p c)) = qr_binary c) \<and>
    (qr_binary c \<noteq> Some qr \<longrightarrow>
       events (snd (tick cls p c)) = events c @ [on_qr_change qr, on_tick] \<and>
       qr_binary (snd (tick cls p c)) = Some qr)"
  using assms by (auto simp: tick_def steady_def end_of_iteration_def)

theorem qr_change_detection_witness:
  "events (snd (tick Locator (showing [''QR_CODE''] [1, 2]) (at_qr [1, 2]))) =
     events (at_qr [1, 2]) @ [on_tick] \<and>
   qr_binary (snd (tick Locator (showing [''QR_CODE''] [1, 2]) (at_qr [1, 2]))) = Some [1, 2] \<and>
   events (snd (tick Locator (showing [''QR_CODE''] [1, 3]) (at_qr [1, 2]))) =
     events (at_qr [1, 2]) @ [on_qr_change [1, 3], on_tick] \<and>
   qr_binary (snd (tick Locator (showing [''QR_CODE''] [1, 3]) (at_qr [1, 2]))) = Some [1, 3]"
proof -
  have st: "state (at_qr [1, 2]) = Some QR_AUTH" and qr: "qr_binary (at_qr [1, 2]) = Some [1, 2]"
    by (simp_all add: at_qr_def Client_init_def)
  have differs: "qr_binary (at_qr [1, 2]) \<noteq> Some [1, 3]"
    by (simp add: at_qr_def Client_init_def)
  from qr_change_detection [OF get_state_pages(5) st extract_qr_pages(1), of "[1, 2]"] qr
  have same: "events (snd (tick Locator (showing [''QR_CODE''] [1, 2]) (at_qr [1, 2]))) =
     events (at_qr [1, 2]) @ [on_tick] \<and>
   qr_binary (snd (tick Locator (showing [''QR_CODE''] [1, 2]) (at_qr [1, 2]))) = Some [1, 2]"
    by simp
  from qr_change_detection [OF get_state_pages(5) st extract_qr_pages(1), of "[1, 3]"] differs
  have changed: "events (snd (tick Locator (showing [''QR_CODE''] [1, 3]) (at_qr [1, 2]))) =
     events (at_qr [1, 2]) @ [on_qr_change [1, 3], on_tick] \<and>
   qr_binary (snd (tick Locator (showing [''QR_CODE''] [1, 3]) (at_qr [1, 2]))) = Some [1, 3]"
    by simp
  from same changed show ?thesis by blast
qed

text \<open>
  C5. When the page is classified QR_AUTH and the QR extraction fails with
  StaleElementReferenceException or NoSuchElementException: in a steady iteration
  the failure is swallowed, the only event is \<^verbatim>\<open>on_tick\<close>, the stored payload and
  state are unchanged and the loop goes on with the next iteration; in a transition
  into QR_AUTH the same failure leaves the iteration and the loop as an exception, with
  the client as it was.
\<close>

theorem qr_extraction_failure:
  assumes "get_state cls p = Inr (Some QR_AUTH)" and "extract_qr cls p = Inl e"
    and "e = StaleElementReferenceException \<or> e = NoSuchElementException"
  shows "(state c = Some QR_AUTH \<longrightarrow>
       fst (tick cls p c) = None \<and>
       events (snd (tick cls p c)) = events c @ [on_tick] \<and>
       qr_binary (snd (tick cls p c)) = qr_binary c \<and>
       state (snd (tick cls p c)) = Some QR_AUTH \<and>
       (running c \<longrightarrow>
          while_running cls (p # ps) c = while_running cls ps (snd (tick cls p c)))) \<and>
    (state c \<noteq> Some QR_AUTH \<longrightarrow>
       tick cls p c = (Some e, c) \<and>
       (running c \<longrightarrow> while_running cls (p # ps) c = (Some e, c)))"
  using assms
  by (auto simp: tick_def steady_def transition_def then_exn_def end_of_iteration_def)

theorem qr_extraction_failure_witness:
  "get_state Locator stale_qr = Inr (Some QR_AUTH) \<and>
   extract_qr Locator stale_qr = Inl StaleElementReferenceException \<and>
   fst (tick Locator stale_qr (at_qr [1, 2])) = None \<and>
   events (snd (tick Locator stale_qr (at_qr [1, 2]))) = events (at_qr [1, 2]) @ [on_tick] \<and>
   qr_binary (snd (tick Locator stale_qr (at_qr [1, 2]))) = Some [1, 2] \<and>
   while_running Locator [stale_qr, showing [''QR_CODE''] [1, 3]] (at_qr [1, 2]) =
     while_running Locator [showing [''QR_CODE''] [1, 3]] (snd (tick Locator stale_qr (at_qr [1, 2]))) \<and>
   tick Locator stale_qr (Client_init\<lparr>running := True\<rparr>) =
     (Some StaleElementReferenceException, Client_init\<lparr>running := True\<rparr>) \<and>
   while_running Locator [stale_qr, showing [''QR_CODE''] [1, 3]] (Client_init\<lparr>running := True\<rparr>) =
     (Some StaleElementReferenceException, Client_init\<lparr>running := True\<rparr>)"
proof -
  have steady_state: "state (at_qr [1, 2]) = Some QR_AUTH" "running (at_qr [1, 2])"
    "qr_binary (at_qr [1, 2]) = Some [1, 2]"
    by (simp_all add: at_qr_def Client_init_def)
  have entering: "state (Client_init\<lparr>running := True\<rparr>) \<noteq> Some QR_AUTH"
    "running (Client_init\<lparr>running := True\<rparr>)"
    by (simp_all add: Client_init_def)
  note failure = qr_extraction_failure [OF get_state_pages(7) extract_qr_pages(3)]
  from failure [of "at_qr [1, 2]" "[showing [''QR_CODE''] [1, 3]]"] steady_state
  have swallowed: "fst (tick Locator stale_qr (at_qr [1, 2])) = None \<and>
   events (snd (tick Locator stale_qr (at_qr [1, 2]))) = events (at_qr [1, 2]) @ [on_tick] \<and>
   qr_binary (snd (tick Locator stale_qr (at_qr [1, 2]))) = Some [1, 2] \<and>
   while_running Locator [stale_qr, showing [''QR_CODE''] [1, 3]] (at_qr [1, 2]) =
     while_running Locator [showing [''QR_CODE''] [1, 3]] (snd (tick Locator stale_qr (at_qr [1, 2])))"
    by simp
  from failure [of "Client_init\<lparr>running := True\<rparr>" "[showing [''QR_CODE''] [1, 3]]"] entering
  have fatal: "tick Locator stale_qr (Client_init\<lparr>running := True\<rparr>) =
     (Some StaleElementReferenceException, Client_init\<lparr>running := True\<rparr>) \<and>
   while_running Locator [stale_qr, showing [''QR_CODE''] [1, 3]] (Client_init\<lparr>running := True\<rparr>) =
     (Some StaleElementReferenceException, Client_init\<lparr>running := True\<rparr>)"
    by simp
  from get_state_pages(7) extract_qr_pages(3) swallowed fatal show ?thesis by blast
qed

subsection \<open>Releasing the driver\<close>

text \<open>
  C4, as amended. On a client whose driver was created, two calls of \<^verbatim>\<open>stop()\<close> in
  succession do not raise and leave \<^verbatim>\<open>running\<close> false and \<^verbatim>\<open>quited\<close> true. When
  the loop exits through a fatal failure and nothing has called \<^verbatim>\<open>stop()\<close>, the
  driver created at the start of the loop has not been quit and \<^verbatim>\<open>quited\<close> is as
  before the run: the release is left to a later \<^verbatim>\<open>stop()\<close>.
\<close>

theorem stop_twice_and_fatal_exit:
  "(driver c = Some d \<longrightarrow>
      fst (stop c) = None \<and> fst (stop (snd (stop c))) = None \<and>
      \<not> running (snd (stop (snd (stop c)))) \<and> quited (snd (stop (snd (stop c))))) \<and>
   (run cls ps c = (Some e, c1) \<and> (\<forall>p\<in>set ps. \<not> stop_in_sleep p) \<longrightarrow>
      driver c1 = Some (get ''https://web.whatsapp.com'' init_driver) \<and> quited c1 = quited c)"
proof (intro conjI impI)
  assume "driver c = Some d"
  then show "fst (stop c) = None" "fst (stop (snd (stop c))) = None"
    "\<not> running (snd (stop (snd (stop c))))" "quited (snd (stop (snd (stop c))))"
    by (simp_all add: stop_def Let_def)
next
  assume a: "run cls ps c = (Some e, c1) \<and> (\<forall>p\<in>set ps. \<not> stop_in_sleep p)"
  then have "while_running cls ps
      (trigger_event on_start
        (c\<lparr>running := True, driver := Some (get ''https://web.whatsapp.com'' init_driver),
           qr_binary := None, state := None\<rparr>)) = (Some e, c1)"
    by (simp add: run_def main_loop_def)
  from while_running_driver [OF this] a
  show "driver c1 = Some (get ''https://web.whatsapp.com'' init_driver)" "quited c1 = quited c"
    by simp_all
qed

theorem stop_twice_and_fatal_exit_witness:
  "driver (at_qr []) = Some (get ''https://web.whatsapp.com'' init_driver) \<and>
   fst (stop (at_qr [])) = None \<and> fst (stop (snd (stop (at_qr [])))) = None \<and>
   quited (snd (stop (snd (stop (at_qr []))))) \<and>
   fst (run Locator [broken] Client_init) = Some WebDriverException \<and>
   driver (snd (run Locator [broken] Client_init)) =
     Some (get ''https://web.whatsapp.com'' init_driver) \<and>
   quited (snd (run Locator [broken] Client_init)) = False"
proof -
  have initialised: "driver (at_qr []) = Some (get ''https://web.whatsapp.com'' init_driver)"
    by (simp add: at_qr_def Client_init_def)
  have fails: "fst (run Locator [broken] Client_init) = Some WebDriverException"
    by (simp add: loop_defs)
  then have fatal: "run Locator [broken] Client_init =
      (Some WebDriverException, snd (run Locator [broken] Client_init))"
    by (simp add: prod_eq_iff)
  have no_stop: "\<forall>p\<in>set [broken]. \<not> stop_in_sleep p"
    by (simp add: no_stop_pages)
  from stop_twice_and_fatal_exit [of "at_qr []" "get ''https://web.whatsapp.com'' init_driver"]
    initialised
  have twice: "fst (stop (at_qr [])) = None \<and> fst (stop (snd (stop (at_qr [])))) = None \<and>
      quited (snd (stop (snd (stop (at_qr [])))))"
    by simp
  from stop_twice_and_fatal_exit [of Client_init _ Locator "[broken]" WebDriverException
      "snd (run Locator [broken] Client_init)"] fatal no_stop
  have unreleased: "driver (snd (run Locator [broken] Client_init)) =
     Some (get ''https://web.whatsapp.com'' init_driver) \<and>
   quited (snd (run Locator [broken] Client_init)) = False"
    by (simp add: Client_init_def)
  from initialised fails twice unreleased show ?thesis by blast
qed

text \<open>
  The claim as first stated fails: after two \<^verbatim>\<open>stop()\<close> calls the driver's
  \<^verbatim>\<open>quit()\<close> has run twice, and a loop that dies on a broken connection leaves the
  driver unreleased.
\<close>

theorem stop_twice_and_fatal_exit_counterexample:
  "snd (stop (snd (stop (snd (run Locator [] Client_init))))) =
     \<lparr>running = False, quited = True,
      driver = Some \<lparr>url = ''https://web.whatsapp.com'', quit_calls = 2\<rparr>,
      qr_binary = None, state = None, events = [on_start]\<rparr> \<and>
   run Locator [broken] Client_init =
     (Some WebDriverException,
      \<lparr>running = True, quited = False,
       driver = Some \<lparr>url = ''https://web.whatsapp.com'', quit_calls = 0\<rparr>,
       qr_binary = None, state = None, events = [on_start]\<rparr>)"
  by (simp add: get_state_pages run_def main_loop_def tick_def stop_def quit_def Let_def
      trigger_event_def Client_init_def init_driver_def get_def)

subsection \<open>Search results\<close>

lemma keys_of_Inr: "keys_of key xs = Inr ks \<Longrightarrow> map key xs = map Inr ks"
proof (induction xs arbitrary: ks)
  case Nil
  then show ?case by simp
next
  case (Cons x xs)
  then show ?case
    by (auto simp: then_exn_def split: sum.splits)
qed

lemma keys_of_total:
  "\<forall>x\<in>set xs. \<exists>k. key x = Inr k \<Longrightarrow> \<exists>ks. keys_of key xs = Inr ks"
  by (induction xs) (auto simp: then_exn_def)

lemma zip_keys:
  assumes "map key xs = map Inr ks" and "p \<in> set (zip ks xs)"
  shows "key (snd p) = Inr (fst p)"
proof -
  from assms(2) obtain n where n: "n < length ks" "n < length xs" "p = (ks ! n, xs ! n)"
    by (auto simp: set_zip)
  from assms(1) n have "map key xs ! n = map Inr ks ! n" by simp
  with n show ?thesis by simp
qed

lemma decorated_sort:
  assumes keys: "map key xs = map Inr ks"
  defines "ys \<equiv> map snd (sort_key fst (zip ks xs))"
  shows "map key ys = map Inr (map fst (sort_key fst (zip ks xs)))"
    and "sorted (map fst (sort_key fst (zip ks xs)))"
    and "mset ys = mset xs"
    and "filter (\<lambda>x. key x = Inr k) ys = filter (\<lambda>x. key x = Inr k) xs"
proof -
  let ?zs = "zip ks xs"
  have len: "length ks = length xs"
    using keys by (metis length_map)
  have pair: "key (snd p) = Inr (fst p)" if "p \<in> set ?zs" for p
    using zip_keys [OF keys that] .
  have pair_sorted: "key (snd p) = Inr (fst p)" if "p \<in> set (sort_key fst ?zs)" for p
    using that pair by simp
  show "map key ys = map Inr (map fst (sort_key fst ?zs))"
    unfolding ys_def using pair_sorted by (simp add: comp_def)
  show "sorted (map fst (sort_key fst ?zs))"
    by (rule sorted_sort_key)
  have "mset ys = image_mset snd (mset (sort_key fst ?zs))"
    unfolding ys_def by simp
  also have "\<dots> = image_mset snd (mset ?zs)"
    by simp
  also have "\<dots> = mset (map snd ?zs)"
    by simp
  also have "\<dots> = mset xs"
    using len by simp
  finally show "mset ys = mset xs" .
  have "filter (\<lambda>x. key x = Inr k) ys =
      map snd (filter (\<lambda>p. key (snd p) = Inr k) (sort_key fst ?zs))"
    unfolding ys_def by (simp add: filter_map comp_def)
  also have "filter (\<lambda>p. key (snd p) = Inr k) (sort_key fst ?zs) =
      filter (\<lambda>p. fst p = k) (sort_key fst ?zs)"
    by (rule filter_cong) (auto simp: pair)
  also have "\<dots> = filter (\<lambda>p. fst p = k) ?zs"
    by (rule sort_key_stable)
  also have "\<dots> = filter (\<lambda>p. key (snd p) = Inr k) ?zs"
    by (rule filter_cong) (auto simp: pair)
  also have "map snd \<dots> = filter (\<lambda>x. key x = Inr k) (map snd ?zs)"
    by (simp add: filter_map comp_def)
  also have "\<dots> = filter (\<lambda>x. key x = Inr k) xs"
    using len by simp
  finally show "filter (\<lambda>x. key x = Inr k) ys = filter (\<lambda>x. key x = Inr k) xs" .
qed

lemma search_sort_key_40: "search_sort_key (item a ''translateY(40px)'') = Inr 40"
  by (simp add: search_sort_key_def item_def findall_digits_def is_digit_def
      int_of_digits_def digit_value_def)

lemma search_sort_key_120: "search_sort_key (item a ''translateY(120px)'') = Inr 120"
  by (simp add: search_sort_key_def item_def findall_digits_def is_digit_def
      int_of_digits_def digit_value_def)

lemma header_tests_agree:
  assumes "div_children fragment"
  shows "is_header fragment = is_header_spec fragment"
    and "is_header fragment \<Longrightarrow> elem_text (hd (child_divs fragment)) = header_text_spec fragment"
proof -
  from assms have all: "child_divs fragment = children fragment"
    by (simp add: div_children_def child_divs_def list_all_iff)
  show "is_header fragment = is_header_spec fragment"
    unfolding is_header_def is_header_spec_def all
    by (cases "children fragment" rule: remdups_adj.cases) auto
  show "elem_text (hd (child_divs fragment)) = header_text_spec fragment" if "is_header fragment"
    using that unfolding is_header_def header_text_spec_def all
    by (cases "children fragment" rule: remdups_adj.cases) auto
qed

lemma search_loop_tagged:
  "\<forall>fragment\<in>set fragments. div_children fragment \<Longrightarrow>
     search_loop parse fragments current results =
       results @ List.map_filter (\<lambda>(fragment, cat). parse fragment cat)
         (tag_with_category current fragments)"
proof (induction fragments arbitrary: current results)
  case Nil
  then show ?case by simp
next
  case (Cons fragment fragments)
  then have divs: "div_children fragment" by simp
  note agree = header_tests_agree [OF divs]
  show ?case
  proof (cases "is_header_spec fragment")
    case True
    with agree Cons show ?thesis by simp
  next
    case False
    with agree Cons show ?thesis by (simp split: option.splits)
  qed
qed

lemma header_shape:
  "is_header_spec (header name tr)" "header_text_spec (header name tr) = name"
  "div_children (header name tr)"
  by (simp_all add: is_header_spec_def header_text_spec_def div_children_def header_def)

lemma item_shape:
  "div_children (item name tr)" "\<not> is_header_spec (item name tr)"
  by (simp_all add: is_header_spec_def div_children_def item_def)

lemma parse_item:
  "parse_search_result_model (item name tr) current =
     Some \<lparr>category = current, title = name, unreadCount = None\<rparr>"
  by (simp add: parse_search_result_model_def item_def)

lemma is_header_on_divs:
  "is_header fragment =
     is_header_spec (Element (tag fragment) (elem_text fragment) (title_attr fragment)
       (transform fragment) (child_divs fragment))"
  unfolding is_header_def is_header_spec_def
  by (cases "child_divs fragment" rule: remdups_adj.cases) auto

text \<open>
  C7, as amended. On position-ordered fragments whose children are all div elements,
  the loop of \<^verbatim>\<open>search\<close> returns what the spec describes: a header fragment (a single
  child with no further nested content) makes that child's text the current category
  and adds no result; every other fragment is handed to the parser with the current
  category and adds the parser's result, or nothing when the parser answers not
  applicable. The code's header test is the spec's shape read on the div children
  alone. The synthetic header has the spec's shape, and on
  [header CHATS, Alice, Bob, header CONTACTS, Carol], with items the parser answers
  for, the loop returns Alice and Bob under CHATS and Carol under CONTACTS.
\<close>

theorem search_loop_categories:
  "((\<forall>fragment\<in>set fragments. div_children fragment) \<longrightarrow>
      search_loop parse fragments current results =
        results @ List.map_filter (\<lambda>(fragment, cat). parse fragment cat)
          (tag_with_category current fragments)) \<and>
   is_header other =
     is_header_spec (Element (tag other) (elem_text other) (title_attr other)
       (transform other) (child_divs other)) \<and>
   is_header_spec (header name tr) \<and> header_text_spec (header name tr) = name \<and>
   div_children (header name tr) \<and>
   (div_children alice \<and> \<not> is_header_spec alice \<and>
    div_children bob \<and> \<not> is_header_spec bob \<and>
    div_children carol \<and> \<not> is_header_spec carol \<and>
    parse alice (Some ''CHATS'') =
      Some \<lparr>category = Some ''CHATS'', title = ''Alice'', unreadCount = unread_alice\<rparr> \<and>
    parse bob (Some ''CHATS'') =
      Some \<lparr>category = Some ''CHATS'', title = ''Bob'', unreadCount = unread_bob\<rparr> \<and>
    parse carol (Some ''CONTACTS'') =
      Some \<lparr>category = Some ''CONTACTS'', title = ''Carol'', unreadCount = unread_carol\<rparr> \<longrightarrow>
      search_loop parse [header ''CHATS'' t0, alice, bob, header ''CONTACTS'' t3, carol] None [] =
        [\<lparr>category = Some ''CHATS'', title = ''Alice'', unreadCount = unread_alice\<rparr>,
         \<lparr>category = Some ''CHATS'', title = ''Bob'', unreadCount = unread_bob\<rparr>,
         \<lparr>category = Some ''CONTACTS'', title = ''Carol'', unreadCount = unread_carol\<rparr>])"
proof (intro conjI impI)
  assume "\<forall>fragment\<in>set fragments. div_children fragment"
  then show "search_loop parse fragments current results =
        results @ List.map_filter (\<lambda>(fragment, cat). parse fragment cat)
          (tag_with_category current fragments)"
    by (rule search_loop_tagged)
next
  show "is_header other =
     is_header_spec (Element (tag other) (elem_text other) (title_attr other)
       (transform other) (child_divs other))"
    by (rule is_header_on_divs)
next
  show "is_header_spec (header name tr)" "header_text_spec (header name tr) = name"
    "div_children (header name tr)"
    by (rule header_shape)+
next
  assume a: "div_children alice \<and> \<not> is_header_spec alice \<and>
    div_children bob \<and> \<not> is_header_spec bob \<and>
    div_children carol \<and> \<not> is_header_spec carol \<and>
    parse alice (Some ''CHATS'') =
      Some \<lparr>category = Some ''CHATS'', title = ''Alice'', unreadCount = unread_alice\<rparr> \<and>
    parse bob (Some ''CHATS'') =
      Some \<lparr>category = Some ''CHATS'', title = ''Bob'', unreadCount = unread_bob\<rparr> \<and>
    parse carol (Some ''CONTACTS'') =
      Some \<lparr>category = Some ''CONTACTS'', title = ''Carol'', unreadCount = unread_carol\<rparr>"
  let ?fragments = "[header ''CHATS'' t0, alice, bob, header ''CONTACTS'' t3, carol]"
  from a have "\<forall>fragment\<in>set ?fragments. div_children fragment"
    by (simp add: header_shape)
  from search_loop_tagged [OF this, of parse None "[]"] a
  show "search_loop parse ?fragments None [] =
        [\<lparr>category = Some ''CHATS'', title = ''Alice'', unreadCount = unread_alice\<rparr>,
         \<lparr>category = Some ''CHATS'', title = ''Bob'', unreadCount = unread_bob\<rparr>,
         \<lparr>category = Some ''CONTACTS'', title = ''Carol'', unreadCount = unread_carol\<rparr>]"
    by (simp add: header_shape)
qed

theorem search_loop_categories_witness:
  "search_loop parse_search_result_model
     [header ''CHATS'' [], item ''Alice'' [], item ''Bob'' [], header ''CONTACTS'' [],
      item ''Carol'' []] None [] =
     [\<lparr>category = Some ''CHATS'', title = ''Alice'', unreadCount = None\<rparr>,
      \<lparr>category = Some ''CHATS'', title = ''Bob'', unreadCount = None\<rparr>,
      \<lparr>category = Some ''CONTACTS'', title = ''Carol'', unreadCount = None\<rparr>] \<and>
   search_loop parse_search_result_model [header ''CHATS'' [], item ''Alice'' []] None [] =
     List.map_filter (\<lambda>(fragment, cat). parse_search_result_model fragment cat)
       (tag_with_category None [header ''CHATS'' [], item ''Alice'' []])"
proof -
  have divs: "\<forall>fragment\<in>set [header ''CHATS'' [], item ''Alice'' []]. div_children fragment"
    by (simp add: header_shape item_shape)
  from search_loop_categories [of "[header ''CHATS'' [], item ''Alice'' []]"
      parse_search_result_model None "[]" canvas] divs
  have general: "search_loop parse_search_result_model [header ''CHATS'' [], item ''Alice'' []] None [] =
     [] @ List.map_filter (\<lambda>(fragment, cat). parse_search_result_model fragment cat)
       (tag_with_category None [header ''CHATS'' [], item ''Alice'' []])"
    by blast
  from search_loop_categories [of "[]" parse_search_result_model None "[]" canvas "[]" "[]"
      "item ''Alice'' []" "item ''Bob'' []" "item ''Carol'' []" None None None "[]" "[]"]
  have example: "search_loop parse_search_result_model
     [header ''CHATS'' [], item ''Alice'' [], item ''Bob'' [], header ''CONTACTS'' [],
      item ''Carol'' []] None [] =
     [\<lparr>category = Some ''CHATS'', title = ''Alice'', unreadCount = None\<rparr>,
      \<lparr>category = Some ''CHATS'', title = ''Bob'', unreadCount = None\<rparr>,
      \<lparr>category = Some ''CONTACTS'', title = ''Carol'', unreadCount = None\<rparr>]"
    by (simp add: item_shape parse_item)
  from general example show ?thesis by simp
qed

text \<open>
  The claim as first stated fails: a fragment with one empty div beside a span has two
  children, so it is an item in the claim's words, but the loop takes it for a header
  and tags the next item with the div's text.
\<close>

theorem search_loop_categories_counterexample:
  "\<not> is_header_spec div_beside_span \<and> is_header div_beside_span \<and>
   search_loop parse_search_result_model
     [header ''CHATS'' [], div_beside_span, item ''Alice'' []] None [] =
     [\<lparr>category = Some ''HDR'', title = ''Alice'', unreadCount = None\<rparr>] \<and>
   List.map_filter (\<lambda>(fragment, cat). parse_search_result_model fragment cat)
     (tag_with_category None [header ''CHATS'' [], div_beside_span, item ''Alice'' []]) =
     [\<lparr>category = Some ''CHATS'', title = ''x'', unreadCount = None\<rparr>,
      \<lparr>category = Some ''CHATS'', title = ''Alice'', unreadCount = None\<rparr>]"
  by (simp add: is_header_spec_def is_header_def child_divs_def div_beside_span_def
      header_text_spec_def header_def item_def parse_search_result_model_def)

text \<open>
  C8. When every item's transform holds a number, \<^verbatim>\<open>search\<close> walks its items in
  the order \<^verbatim>\<open>sorted\<close> with \<^verbatim>\<open>search_sort_key\<close> gives them: the same items, in
  ascending order of the last run of digits of their transform, items with equal keys
  in their original relative order. The key of \<^verbatim>\<open>translateY(40px)\<close> is 40 and that
  of \<^verbatim>\<open>translateY(120px)\<close> is 120, so the 40 item is walked first.
\<close>

theorem search_results_order:
  "((\<forall>i\<in>set result_items. findall_digits (transform i) \<noteq> []) \<longrightarrow>
      (\<exists>sorted_result_items ks.
         search_results parse result_items =
           Inr (search_loop parse sorted_result_items None []) \<and>
         sorted_py search_sort_key result_items = Inr sorted_result_items \<and>
         map search_sort_key sorted_result_items = map Inr ks \<and> sorted ks \<and>
         mset sorted_result_items = mset result_items \<and>
         (\<forall>k. filter (\<lambda>i. search_sort_key i = Inr k) sorted_result_items =
              filter (\<lambda>i. search_sort_key i = Inr k) result_items))) \<and>
   search_sort_key (item a ''translateY(40px)'') = Inr 40 \<and>
   search_sort_key (item b ''translateY(120px)'') = Inr 120 \<and>
   sorted_py search_sort_key [item b ''translateY(120px)'', item a ''translateY(40px)''] =
     Inr [item a ''translateY(40px)'', item b ''translateY(120px)''] \<and>
   search_results parse [item b ''translateY(120px)'', item a ''translateY(40px)''] =
     Inr (search_loop parse [item a ''translateY(40px)'', item b ''translateY(120px)''] None [])"
proof (intro conjI impI)
  assume digits: "\<forall>i\<in>set result_items. findall_digits (transform i) \<noteq> []"
  have "\<forall>i\<in>set result_items. \<exists>k. search_sort_key i = Inr k"
    using digits by (auto simp: search_sort_key_def split: list.splits)
  then obtain ks where ks: "keys_of search_sort_key result_items = Inr ks"
    using keys_of_total by blast
  let ?ys = "map snd (sort_key fst (zip ks result_items))"
  note sorted_facts = decorated_sort [OF keys_of_Inr [OF ks]]
  have sorted_eq: "sorted_py search_sort_key result_items = Inr ?ys"
    by (simp add: sorted_py_def then_exn_def ks)
  then have "search_results parse result_items = Inr (search_loop parse ?ys None [])"
    by (simp add: search_results_def then_exn_def)
  moreover have "\<forall>k. filter (\<lambda>i. search_sort_key i = Inr k) ?ys =
      filter (\<lambda>i. search_sort_key i = Inr k) result_items"
    using sorted_facts(4) by blast
  ultimately show "\<exists>sorted_result_items ks.
      search_results parse result_items =
        Inr (search_loop parse sorted_result_items None []) \<and>
      sorted_py search_sort_key result_items = Inr sorted_result_items \<and>
      map search_sort_key sorted_result_items = map Inr ks \<and> sorted ks \<and>
      mset sorted_result_items = mset result_items \<and>
      (\<forall>k. filter (\<lambda>i. search_sort_key i = Inr k) sorted_result_items =
           filter (\<lambda>i. search_sort_key i = Inr k) result_items)"
    using sorted_eq sorted_facts(1,2,3) by blast
next
  show "search_sort_key (item a ''translateY(40px)'') = Inr 40"
    by (rule search_sort_key_40)
  show "search_sort_key (item b ''translateY(120px)'') = Inr 120"
    by (rule search_sort_key_120)
  show sorted_two: "sorted_py search_sort_key
      [item b ''translateY(120px)'', item a ''translateY(40px)''] =
      Inr [item a ''translateY(40px)'', item b ''translateY(120px)'']"
    by (simp add: sorted_py_def then_exn_def search_sort_key_40 search_sort_key_120)
  show "search_results parse [item b ''translateY(120px)'', item a ''translateY(40px)''] =
     Inr (search_loop parse [item a ''translateY(40px)'', item b ''translateY(120px)''] None [])"
    by (simp add: search_results_def then_exn_def sorted_two)
qed

theorem search_results_order_witness:
  "findall_digits (transform (item ''Bob'' ''translateY(120px)'')) \<noteq> [] \<and>
   findall_digits (transform (item ''Alice'' ''translateY(40px)'')) \<noteq> [] \<and>
   findall_digits (transform (item ''Carol'' ''translateY(40px)'')) \<noteq> [] \<and>
   (\<exists>sorted_result_items ks.
      search_results parse_search_result_model
        [item ''Bob'' ''translateY(120px)'', item ''Alice'' ''translateY(40px)'',
         item ''Carol'' ''translateY(40px)''] =
        Inr (search_loop parse_search_result_model sorted_result_items None []) \<and>
      sorted_py search_sort_key
        [item ''Bob'' ''translateY(120px)'', item ''Alice'' ''translateY(40px)'',
         item ''Carol'' ''translateY(40px)''] = Inr sorted_result_items \<and>
      map search_sort_key sorted_result_items = map Inr ks \<and> sorted ks \<and>
      mset sorted_result_items =
        mset [item ''Bob'' ''translateY(120px)'', item ''Alice'' ''translateY(40px)'',
              item ''Carol'' ''translateY(40px)'']) \<and>
   sorted_py search_sort_key
     [item ''Bob'' ''translateY(120px)'', item ''Alice'' ''translateY(40px)'',
      item ''Carol'' ''translateY(40px)''] =
     Inr [item ''Alice'' ''translateY(40px)'', item ''Carol'' ''translateY(40px)'',
          item ''Bob'' ''translateY(120px)''] \<and>
   search_results parse_search_result_model
     [item ''Bob'' ''translateY(120px)'', item ''Alice'' ''translateY(40px)'',
      item ''Carol'' ''translateY(40px)''] =
     Inr [\<lparr>category = None, title = ''Alice'', unreadCount = None\<rparr>,
          \<lparr>category = None, title = ''Carol'', unreadCount = None\<rparr>,
          \<lparr>category = None, title = ''Bob'', unreadCount = None\<rparr>]"
proof -
  let ?items = "[item ''Bob'' ''translateY(120px)'', item ''Alice'' ''translateY(40px)'',
         item ''Carol'' ''translateY(40px)'']"
  have digits:
    "findall_digits (transform (item ''Bob'' ''translateY(120px)'')) \<noteq> []"
    "findall_digits (transform (item ''Alice'' ''translateY(40px)'')) \<noteq> []"
    "findall_digits (transform (item ''Carol'' ''translateY(40px)'')) \<noteq> []"
    by (simp_all add: item_def findall_digits_def is_digit_def)
  then have all: "\<forall>i\<in>set ?items. findall_digits (transform i) \<noteq> []"
    by simp
  from search_results_order [of ?items parse_search_result_model] all
  have ordered: "\<exists>sorted_result_items ks.
      search_results parse_search_result_model ?items =
        Inr (search_loop parse_search_result_model sorted_result_items None []) \<and>
      sorted_py search_sort_key ?items = Inr sorted_result_items \<and>
      map search_sort_key sorted_result_items = map Inr ks \<and> sorted ks \<and>
      mset sorted_result_items = mset ?items"
    by blast
  have result: "sorted_py search_sort_key ?items =
     Inr [item ''Alice'' ''translateY(40px)'', item ''Carol'' ''translateY(40px)'',
          item ''Bob'' ''translateY(120px)'']"
    by (simp add: sorted_py_def then_exn_def search_sort_key_40 search_sort_key_120)
  have not_header: "\<not> is_header (item name tr)" for name tr
    by (simp add: is_header_def item_def child_divs_def)
  have found: "search_results parse_search_result_model ?items =
     Inr [\<lparr>category = None, title = ''Alice'', unreadCount = None\<rparr>,
          \<lparr>category = None, title = ''Carol'', unreadCount = None\<rparr>,
          \<lparr>category = None, title = ''Bob'', unreadCount = None\<rparr>]"
    by (simp add: search_results_def then_exn_def result not_header parse_item)
  from digits ordered result found show ?thesis by blast
qed

end
